theory Spec2Isabelle
  imports Complex_Main
begin

section \<open>Arrays and tensors\<close>

text \<open>
  A numeric array is a nested list in row-major order, its entries real numbers: the
  development reasons about the arithmetic the code writes down, not about its rounding.
  Where a claim depends on the shape of an array that may be empty, the shape travels with
  the data in a record.
\<close>

type_synonym 'a matrix = "'a list list"

text \<open>\<^verbatim>\<open>result[i, j] = v\<close> on a two-dimensional array.\<close>

definition set2 :: "'a matrix \<Rightarrow> nat \<Rightarrow> nat \<Rightarrow> 'a \<Rightarrow> 'a matrix" where
  "set2 result i j v = result[i := (result ! i)[j := v]]"

section \<open>Positional embeddings\<close>

text \<open>
  \<^verbatim>\<open>get_positional_embeddings(sequence_length, d)\<close> of \<^verbatim>\<open>deep_network.py\<close> (first
  definition): the table starts as all ones and the two loops write every entry.
\<close>

definition get_positional_embeddings :: "nat \<Rightarrow> nat \<Rightarrow> real matrix" where
  "get_positional_embeddings sequence_length d =
     fold (\<lambda>i result.
        fold (\<lambda>j result.
           if j mod 2 = 0
           then set2 result i j (sin (real i / (10000 powr (real j / real d))))
           else set2 result i j (cos (real i / (10000 powr (real (j - 1) / real d)))))
          [0..<d] result)
       [0..<sequence_length]
       (replicate sequence_length (replicate d 1))"

text \<open>The second definition of the same name, which follows the first in the file.\<close>

definition get_positional_embeddings_second :: "nat \<Rightarrow> nat \<Rightarrow> real matrix" where
  "get_positional_embeddings_second sequence_length d =
     fold (\<lambda>i result.
        fold (\<lambda>j result.
           if j mod 2 = 0
           then set2 result i j (sin (real i / (10000 powr (real j / real d))))
           else set2 result i j (cos (real i / (10000 powr (real (j - 1) / real d)))))
          [0..<d] result)
       [0..<sequence_length]
       (replicate sequence_length (replicate d 1))"

section \<open>Errors and results\<close>

text \<open>The exceptions the modelled code can raise. A raise is the value \<open>Inl e\<close>.\<close>

datatype error =
  AssertionError | TypeError | ValueError | RuntimeError | ZeroDivisionError
  | IndexError | UnboundLocalError | LinAlgError

definition ebind :: "error + 'a \<Rightarrow> ('a \<Rightarrow> error + 'b) \<Rightarrow> error + 'b" where
  "ebind r f = (case r of Inl e \<Rightarrow> Inl e | Inr v \<Rightarrow> f v)"

text \<open>A loop that collects one result per element and stops at the first raise.\<close>

fun mapM :: "('a \<Rightarrow> error + 'b) \<Rightarrow> 'a list \<Rightarrow> error + 'b list" where
  "mapM f [] = Inr []"
| "mapM f (x # xs) =
     (case f x of
        Inl e \<Rightarrow> Inl e
      | Inr y \<Rightarrow> (case mapM f xs of Inl e \<Rightarrow> Inl e | Inr ys \<Rightarrow> Inr (y # ys)))"

text \<open>A loop that updates a state once per element and stops at the first raise.\<close>

fun foldM :: "('a \<Rightarrow> 's \<Rightarrow> error + 's) \<Rightarrow> 'a list \<Rightarrow> 's \<Rightarrow> error + 's" where
  "foldM f [] s = Inr s"
| "foldM f (x # xs) s = (case f x s of Inl e \<Rightarrow> Inl e | Inr s' \<Rightarrow> foldM f xs s')"

text \<open>Arrays that carry their shape, as \<^verbatim>\<open>.shape\<close> reads it.\<close>

record array2 =
  shape2 :: "nat \<times> nat"
  data2 :: "real matrix"

record tensor3 =
  shape3 :: "nat \<times> nat \<times> nat"
  data3 :: "real matrix list"

record tensor4 =
  shape4 :: "nat \<times> nat \<times> nat \<times> nat"
  data4 :: "real matrix list list"

definition valid2 :: "array2 \<Rightarrow> bool" where
  "valid2 a = (case shape2 a of (N, D) \<Rightarrow>
     length (data2 a) = N \<and> list_all (\<lambda>row. length row = D) (data2 a))"

definition valid4 :: "tensor4 \<Rightarrow> bool" where
  "valid4 t = (case shape4 t of (n, c, h, w) \<Rightarrow>
     length (data4 t) = n \<and>
     list_all (\<lambda>img. length img = c \<and>
       list_all (\<lambda>channel. length channel = h \<and>
         list_all (\<lambda>row. length row = w) channel) img) (data4 t))"

text \<open>The slice \<^verbatim>\<open>xs[a:b]\<close> for non-negative bounds: out-of-range bounds are clamped.\<close>

definition slice :: "nat \<Rightarrow> nat \<Rightarrow> 'a list \<Rightarrow> 'a list" where
  "slice a b xs = drop a (take b xs)"

section \<open>Patchify\<close>

text \<open>
  \<^verbatim>\<open>patches[idx, k] = v\<close> for a one-dimensional \<open>v\<close>: the lengths must agree, except that a
  single element is broadcast over the row.
\<close>

definition assign_patch ::
  "real matrix list \<Rightarrow> nat \<Rightarrow> nat \<Rightarrow> real list \<Rightarrow> error + real matrix list" where
  "assign_patch patches idx k v =
     (let row_len = length (patches ! idx ! k) in
      if length v = row_len
      then Inr (patches[idx := (patches ! idx)[k := v]])
      else if length v = 1
      then Inr (patches[idx := (patches ! idx)[k := replicate row_len (hd v)]])
      else Inl RuntimeError)"

text \<open>\<^verbatim>\<open>image[:, i*s:(i+1)*s, j*s:(j+1)*s]\<close> and \<^verbatim>\<open>.flatten()\<close>.\<close>

definition extract_patch :: "real matrix list \<Rightarrow> nat \<Rightarrow> nat \<Rightarrow> nat \<Rightarrow> real matrix list" where
  "extract_patch img patch_size i j =
     map (\<lambda>channel.
        map (\<lambda>row. slice (j * patch_size) ((j + 1) * patch_size) row)
          (slice (i * patch_size) ((i + 1) * patch_size) channel))
       img"

definition flatten3 :: "real matrix list \<Rightarrow> real list" where
  "flatten3 t = concat (concat t)"

definition patchify :: "tensor4 \<Rightarrow> nat \<Rightarrow> error + tensor3" where
  "patchify images n_patches =
     (case shape4 images of (n, c, h, w) \<Rightarrow>
        if h \<noteq> w then Inl AssertionError
        else if n_patches ^ 2 = 0 then Inl ZeroDivisionError
        else
          let patches = replicate n (replicate (n_patches ^ 2)
                          (replicate (h * w * c div n_patches ^ 2) 0));
              patch_size = h div n_patches
          in ebind
               (foldM (\<lambda>(idx, img) patches.
                   foldM (\<lambda>i patches.
                      foldM (\<lambda>j patches.
                         let patch = extract_patch img patch_size i j
                         in assign_patch patches idx (i * n_patches + j) (flatten3 patch))
                        [0..<n_patches] patches)
                     [0..<n_patches] patches)
                  (enumerate 0 (data4 images)) patches)
               (\<lambda>patches. Inr \<lparr>shape3 = (n, n_patches ^ 2, h * w * c div n_patches ^ 2),
                                 data3 = patches\<rparr>))"

text \<open>
  Reassembly, written from the round-trip property: pixel \<open>(r, q)\<close> of channel \<open>ch\<close> lies in
  grid cell \<open>(r div s, q div s)\<close> and is read from the row at patch index
  \<open>(r div s) * n_patches + q div s\<close>, at the channel-major offset of \<open>(ch, r mod s, q mod s)\<close>.
\<close>

definition unpatchify :: "nat \<Rightarrow> nat \<Rightarrow> nat \<Rightarrow> tensor3 \<Rightarrow> tensor4" where
  "unpatchify c h n_patches patches =
     (let s = h div n_patches in
      \<lparr>shape4 = (fst (shape3 patches), c, h, h),
       data4 = map (\<lambda>rows.
                  map (\<lambda>ch.
                     map (\<lambda>r.
                        map (\<lambda>q. rows ! ((r div s) * n_patches + q div s)
                                     ! (ch * s * s + (r mod s) * s + q mod s))
                          [0..<h])
                       [0..<h])
                    [0..<c])
                 (data3 patches)\<rparr>)"

section \<open>Linear algebra on nested lists\<close>

definition dot :: "real list \<Rightarrow> real list \<Rightarrow> real" where
  "dot xs ys = sum_list (map2 (*) xs ys)"

text \<open>\<^verbatim>\<open>a @ b.T\<close>: entry \<open>(i, j)\<close> is the inner product of row \<open>i\<close> of \<open>a\<close> and row \<open>j\<close> of \<open>b\<close>.\<close>

definition matmul_transposed :: "real matrix \<Rightarrow> real matrix \<Rightarrow> real matrix" where
  "matmul_transposed a b = map (\<lambda>arow. map (\<lambda>brow. dot arow brow) b) a"

definition ncols :: "real matrix \<Rightarrow> nat" where
  "ncols b = (case b of [] \<Rightarrow> 0 | row # _ \<Rightarrow> length row)"

definition column :: "real matrix \<Rightarrow> nat \<Rightarrow> real list" where
  "column b c = map (\<lambda>row. row ! c) b"

text \<open>\<^verbatim>\<open>a @ b\<close> for \<open>a\<close> of shape \<open>(n, m)\<close> and \<open>b\<close> of shape \<open>(m, p)\<close>.\<close>

definition matmul :: "real matrix \<Rightarrow> real matrix \<Rightarrow> real matrix" where
  "matmul a b = map (\<lambda>arow. map (\<lambda>c. dot arow (column b c)) [0..<ncols b]) a"

text \<open>Softmax along the last axis.\<close>

definition softmax :: "real list \<Rightarrow> real list" where
  "softmax xs = map (\<lambda>x. exp x / sum_list (map exp xs)) xs"

text \<open>
  A linear layer \<^verbatim>\<open>nn.Linear(in_features, out_features)\<close>: \<open>weight\<close> has one row per output
  feature, and the layer raises when the last axis of its input is not \<open>in_features\<close> long.
\<close>

record linear =
  in_features :: nat
  out_features :: nat
  weight :: "real matrix"
  bias :: "real list"

definition valid_linear :: "nat \<Rightarrow> nat \<Rightarrow> linear \<Rightarrow> bool" where
  "valid_linear n_in n_out l \<longleftrightarrow>
     in_features l = n_in \<and> out_features l = n_out \<and>
     length (weight l) = n_out \<and> list_all (\<lambda>row. length row = n_in) (weight l) \<and>
     length (bias l) = n_out"

definition linear_token :: "linear \<Rightarrow> real list \<Rightarrow> real list" where
  "linear_token l x = map2 (\<lambda>w b. dot x w + b) (weight l) (bias l)"

definition linear_forward :: "linear \<Rightarrow> real matrix \<Rightarrow> error + real matrix" where
  "linear_forward l x =
     (if list_all (\<lambda>token. length token = in_features l) x
      then Inr (map (linear_token l) x)
      else Inl RuntimeError)"

definition linear_forward3 :: "linear \<Rightarrow> real matrix list \<Rightarrow> error + real matrix list" where
  "linear_forward3 l x =
     (if list_all (list_all (\<lambda>token. length token = in_features l)) x
      then Inr (map (map (linear_token l)) x)
      else Inl RuntimeError)"

text \<open>
  Elementwise \<^verbatim>\<open>x + y\<close> of two three-dimensional tensors. Wherever the code adds, both
  operands have passed the same layers and have the same shape; other shapes raise here.
\<close>

definition add3 :: "real matrix list \<Rightarrow> real matrix list \<Rightarrow> error + real matrix list" where
  "add3 x y =
     (if map (map length) x = map (map length) y
      then Inr (map2 (map2 (map2 (+))) x y)
      else Inl RuntimeError)"

section \<open>Multi-head self-attention\<close>

text \<open>
  \<^verbatim>\<open>MyMSA\<close>. The constructor also stores \<^verbatim>\<open>self.softmax = nn.Softmax(dim=-1)\<close>, a layer
  without parameters that \<^verbatim>\<open>forward\<close> never calls.
\<close>

record MyMSA =
  msa_d :: nat
  msa_n_heads :: nat
  msa_d_head :: nat
  q_mappings :: "linear list"
  k_mappings :: "linear list"
  v_mappings :: "linear list"

text \<open>What \<^verbatim>\<open>MyMSA.__init__(d, n_heads)\<close> establishes when its assertion passes.\<close>

definition valid_MyMSA :: "nat \<Rightarrow> nat \<Rightarrow> MyMSA \<Rightarrow> bool" where
  "valid_MyMSA d n_heads self \<longleftrightarrow>
     msa_d self = d \<and> msa_n_heads self = n_heads \<and>
     n_heads \<noteq> 0 \<and> d mod n_heads = 0 \<and> msa_d_head self = d div n_heads \<and>
     length (q_mappings self) = n_heads \<and>
     list_all (valid_linear (d div n_heads) (d div n_heads)) (q_mappings self) \<and>
     length (k_mappings self) = n_heads \<and>
     list_all (valid_linear (d div n_heads) (d div n_heads)) (k_mappings self) \<and>
     length (v_mappings self) = n_heads \<and>
     list_all (valid_linear (d div n_heads) (d div n_heads)) (v_mappings self)"

text \<open>\<^verbatim>\<open>torch.hstack\<close> of matrices with the same number of rows; an empty list raises.\<close>

definition hstack :: "real matrix list \<Rightarrow> error + real matrix" where
  "hstack ms =
     (case ms of
        [] \<Rightarrow> Inl RuntimeError
      | m # _ \<Rightarrow> Inr (map (\<lambda>i. concat (map (\<lambda>m. m ! i) ms)) [0..<length m]))"

text \<open>The body of the loop over heads, for one sequence.\<close>

definition MyMSA_head :: "MyMSA \<Rightarrow> real matrix \<Rightarrow> nat \<Rightarrow> error + real matrix" where
  "MyMSA_head self sequence head =
     (let q_mapping = q_mappings self ! head;
          k_mapping = k_mappings self ! head;
          v_mapping = v_mappings self ! head;
          seq = map (slice (head * msa_d_head self) ((head + 1) * msa_d_head self)) sequence
      in ebind (linear_forward q_mapping seq) (\<lambda>q.
         ebind (linear_forward k_mapping seq) (\<lambda>k.
         ebind (linear_forward v_mapping seq) (\<lambda>v.
           let attention =
                 map (map (\<lambda>x. x / sqrt (real (msa_d_head self)))) (matmul_transposed q k)
           in Inr (matmul attention v)))))"

text \<open>\<^verbatim>\<open>MyMSA.forward\<close>; \<^verbatim>\<open>torch.cat\<close> of an empty list raises.\<close>

definition MyMSA_forward :: "MyMSA \<Rightarrow> real matrix list \<Rightarrow> error + real matrix list" where
  "MyMSA_forward self sequences =
     ebind
       (mapM (\<lambda>sequence.
           ebind (mapM (MyMSA_head self sequence) [0..<msa_n_heads self]) hstack)
          sequences)
       (\<lambda>result. if result = [] then Inl RuntimeError else Inr result)"

text \<open>
  The attention of the specification, for comparison: the scaled scores pass through a
  row-wise softmax before they multiply \<open>v\<close>. Everything else is as in the code.
\<close>

definition MultiHeadSelfAttention_head :: "MyMSA \<Rightarrow> real matrix \<Rightarrow> nat \<Rightarrow> error + real matrix" where
  "MultiHeadSelfAttention_head self sequence head =
     (let q_mapping = q_mappings self ! head;
          k_mapping = k_mappings self ! head;
          v_mapping = v_mappings self ! head;
          seq = map (slice (head * msa_d_head self) ((head + 1) * msa_d_head self)) sequence
      in ebind (linear_forward q_mapping seq) (\<lambda>q.
         ebind (linear_forward k_mapping seq) (\<lambda>k.
         ebind (linear_forward v_mapping seq) (\<lambda>v.
           let scores =
                 map (map (\<lambda>x. x / sqrt (real (msa_d_head self)))) (matmul_transposed q k)
           in Inr (matmul (map softmax scores) v)))))"

definition MultiHeadSelfAttention ::
  "MyMSA \<Rightarrow> real matrix list \<Rightarrow> error + real matrix list" where
  "MultiHeadSelfAttention self sequences =
     ebind
       (mapM (\<lambda>sequence.
           ebind (mapM (MultiHeadSelfAttention_head self sequence) [0..<msa_n_heads self])
             hstack)
          sequences)
       (\<lambda>result. if result = [] then Inl RuntimeError else Inr result)"

section \<open>Transformer block\<close>

text \<open>\<^verbatim>\<open>nn.LayerNorm(normalized_shape)\<close> with its default \<open>eps = 1e-5\<close>.\<close>

record layer_norm =
  normalized_shape :: nat
  ln_weight :: "real list"
  ln_bias :: "real list"

definition valid_layer_norm :: "nat \<Rightarrow> layer_norm \<Rightarrow> bool" where
  "valid_layer_norm n layer \<longleftrightarrow>
     normalized_shape layer = n \<and> length (ln_weight layer) = n \<and>
     length (ln_bias layer) = n"

definition layer_norm_token :: "layer_norm \<Rightarrow> real list \<Rightarrow> real list" where
  "layer_norm_token layer x =
     (let n = real (length x);
          mean = sum_list x / n;
          var = sum_list (map (\<lambda>v. (v - mean) ^ 2) x) / n
      in map (\<lambda>(v, g, b). (v - mean) / sqrt (var + 1 / 100000) * g + b)
           (zip x (zip (ln_weight layer) (ln_bias layer))))"

definition layer_norm_forward :: "layer_norm \<Rightarrow> real matrix list \<Rightarrow> error + real matrix list" where
  "layer_norm_forward layer x =
     (if list_all (list_all (\<lambda>token. length token = normalized_shape layer)) x
      then Inr (map (map (layer_norm_token layer)) x)
      else Inl RuntimeError)"

text \<open>
  \<^verbatim>\<open>MyViTBlock\<close>; \<open>mlp_fc1\<close> and \<open>mlp_fc2\<close> are the two linear layers of its \<^verbatim>\<open>mlp\<close>. The
  activation \<^verbatim>\<open>nn.GELU()\<close> between them is a parameter \<open>gelu\<close> of the forward pass.
\<close>

record MyViTBlock =
  blk_hidden_d :: nat
  blk_n_heads :: nat
  norm1 :: layer_norm
  mhsa :: MyMSA
  norm2 :: layer_norm
  mlp_fc1 :: linear
  mlp_fc2 :: linear

text \<open>What \<^verbatim>\<open>MyViTBlock.__init__(hidden_d, n_heads)\<close> establishes (\<open>mlp_ratio = 4\<close>).\<close>

definition valid_MyViTBlock :: "nat \<Rightarrow> nat \<Rightarrow> MyViTBlock \<Rightarrow> bool" where
  "valid_MyViTBlock hidden_d n_heads self \<longleftrightarrow>
     blk_hidden_d self = hidden_d \<and> blk_n_heads self = n_heads \<and>
     valid_layer_norm hidden_d (norm1 self) \<and>
     valid_MyMSA hidden_d n_heads (mhsa self) \<and>
     valid_layer_norm hidden_d (norm2 self) \<and>
     valid_linear hidden_d (4 * hidden_d) (mlp_fc1 self) \<and>
     valid_linear (4 * hidden_d) hidden_d (mlp_fc2 self)"

definition MyViTBlock_forward ::
  "(real \<Rightarrow> real) \<Rightarrow> MyViTBlock \<Rightarrow> real matrix list \<Rightarrow> error + real matrix list" where
  "MyViTBlock_forward gelu self x =
     ebind (layer_norm_forward (norm1 self) x) (\<lambda>normed.
     ebind (MyMSA_forward (mhsa self) normed) (\<lambda>attended.
     ebind (add3 x attended) (\<lambda>out.
     ebind (layer_norm_forward (norm2 self) out) (\<lambda>normed.
     ebind (linear_forward3 (mlp_fc1 self) normed) (\<lambda>hidden.
     ebind (linear_forward3 (mlp_fc2 self) (map (map (map gelu)) hidden)) (\<lambda>projected.
       add3 out projected))))))"

section \<open>Vision transformer\<close>

text \<open>
  \<^verbatim>\<open>MyViT\<close>. \<open>class_token\<close> is the single row of the \<open>(1, hidden_d)\<close> parameter; \<open>mlp\<close> is the
  linear layer of the classification head, which \<^verbatim>\<open>nn.Softmax(dim=-1)\<close> follows.
\<close>

record MyViT =
  chw :: "nat \<times> nat \<times> nat"
  vit_n_patches :: nat
  vit_n_blocks :: nat
  vit_n_heads :: nat
  vit_hidden_d :: nat
  input_d :: nat
  linear_mapper :: linear
  class_token :: "real list"
  positional_embeddings :: "real matrix"
  blocks :: "MyViTBlock list"
  mlp :: linear

text \<open>
  What \<^verbatim>\<open>MyViT.__init__(chw, n_patches, n_blocks, hidden_d, n_heads, out_d)\<close> establishes
  when its assertions pass; training changes the values of the weights, not their shapes.
  A patch count of zero makes the first assertion divide by zero.
\<close>

definition valid_MyViT :: "nat \<Rightarrow> MyViT \<Rightarrow> bool" where
  "valid_MyViT out_d self \<longleftrightarrow>
     (case chw self of (c, h, w) \<Rightarrow>
        vit_n_patches self \<noteq> 0 \<and>
        h mod vit_n_patches self = 0 \<and> w mod vit_n_patches self = 0 \<and>
        input_d self = c * (h div vit_n_patches self) * (w div vit_n_patches self) \<and>
        valid_linear (input_d self) (vit_hidden_d self) (linear_mapper self) \<and>
        length (class_token self) = vit_hidden_d self \<and>
        positional_embeddings self =
          get_positional_embeddings_second (vit_n_patches self ^ 2 + 1) (vit_hidden_d self) \<and>
        length (blocks self) = vit_n_blocks self \<and>
        list_all (valid_MyViTBlock (vit_hidden_d self) (vit_n_heads self)) (blocks self) \<and>
        valid_linear (vit_hidden_d self) out_d (mlp self))"

text \<open>\<^verbatim>\<open>self.linear_mapper(patches)\<close> on the patch tensor.\<close>

definition map_patches :: "linear \<Rightarrow> tensor3 \<Rightarrow> error + real matrix list" where
  "map_patches l patches =
     (case shape3 patches of (n, k, row_len) \<Rightarrow>
        if row_len = in_features l
        then Inr (map (map (linear_token l)) (data3 patches))
        else Inl RuntimeError)"

text \<open>\<^verbatim>\<open>out[:, 0]\<close> for one sequence.\<close>

definition first_token :: "real matrix \<Rightarrow> error + real list" where
  "first_token sequence = (case sequence of [] \<Rightarrow> Inl IndexError | token # _ \<Rightarrow> Inr token)"

text \<open>
  \<^verbatim>\<open>MyViT.forward\<close> in two parts: the statements up to and including the loop over the
  blocks, which give the transformed sequences, and the rest, which takes the token at
  position \<open>0\<close> of every sequence through the classification head.
\<close>

definition MyViT_sequences ::
  "(real \<Rightarrow> real) \<Rightarrow> MyViT \<Rightarrow> tensor4 \<Rightarrow> error + real matrix list" where
  "MyViT_sequences gelu self x =
     (case shape4 x of (n, c, h, w) \<Rightarrow>
        ebind (patchify x (vit_n_patches self)) (\<lambda>patches.
        ebind (map_patches (linear_mapper self) patches) (\<lambda>tokens.
          let tokens = map (\<lambda>sequence. class_token self # sequence) tokens
          in ebind (add3 tokens (replicate n (positional_embeddings self))) (\<lambda>out.
               foldM (\<lambda>block out. MyViTBlock_forward gelu block out) (blocks self) out))))"

definition MyViT_forward :: "(real \<Rightarrow> real) \<Rightarrow> MyViT \<Rightarrow> tensor4 \<Rightarrow> error + real matrix" where
  "MyViT_forward gelu self x =
     ebind (MyViT_sequences gelu self x) (\<lambda>out.
     ebind (mapM first_token out) (\<lambda>out.
     ebind (linear_forward (mlp self) out) (\<lambda>logits.
       Inr (map softmax logits))))"

text \<open>A tensor of \<open>n\<close> sequences of \<open>L\<close> tokens of dimension \<open>d\<close>.\<close>

definition has_shape3 :: "nat \<Rightarrow> nat \<Rightarrow> nat \<Rightarrow> real matrix list \<Rightarrow> bool" where
  "has_shape3 n L d x \<longleftrightarrow>
     length x = n \<and>
     list_all (\<lambda>sequence. length sequence = L \<and> list_all (\<lambda>token. length token = d) sequence) x"

section \<open>Trainer: the reshaping done by fit and predict\<close>

text \<open>Which of the three classes \<^verbatim>\<open>self.model\<close> is an instance of, if any.\<close>

datatype model_kind = CNN_model | MLP_model | MyViT_model | Other_model

datatype model_input = Flat array2 | Images tensor4

text \<open>\<^verbatim>\<open>int(np.sqrt(D))\<close>.\<close>

definition int_sqrt :: "nat \<Rightarrow> nat" where
  "int_sqrt D = nat \<lfloor>sqrt (real D)\<rfloor>"

text \<open>\<^verbatim>\<open>data.reshape(N, 1, W, H)\<close> of an array of shape \<open>(N, W * H)\<close>.\<close>

definition reshape_N1WH :: "nat \<Rightarrow> nat \<Rightarrow> nat \<Rightarrow> array2 \<Rightarrow> tensor4" where
  "reshape_N1WH N W H a =
     \<lparr>shape4 = (N, 1, W, H),
      data4 = map (\<lambda>row. [map (\<lambda>r. slice (r * H) ((r + 1) * H) row) [0..<W]]) (data2 a)\<rparr>"

text \<open>
  The array that \<^verbatim>\<open>Trainer.fit\<close> hands to the data loader: the first statements of the
  method. With a model of none of the three classes \<^verbatim>\<open>training_data_reshaped\<close> is never
  bound.
\<close>

definition Trainer_fit_input :: "model_kind \<Rightarrow> array2 \<Rightarrow> error + model_input" where
  "Trainer_fit_input model training_data =
     (case shape2 training_data of (N, D) \<Rightarrow>
        let W = int_sqrt D; H = int_sqrt D in
        (case model of
           CNN_model \<Rightarrow>
             if W * H = D then Inr (Images (reshape_N1WH N W H training_data))
             else Inl AssertionError
         | MLP_model \<Rightarrow> Inr (Flat training_data)
         | MyViT_model \<Rightarrow>
             if W * H = D then Inr (Images (reshape_N1WH N W H training_data))
             else Inl AssertionError
         | Other_model \<Rightarrow> Inl UnboundLocalError))"

text \<open>The same for \<^verbatim>\<open>Trainer.predict\<close>, which leaves the data of any other model as they are.\<close>

definition Trainer_predict_input :: "model_kind \<Rightarrow> array2 \<Rightarrow> error + model_input" where
  "Trainer_predict_input model test_data =
     (case shape2 test_data of (N, D) \<Rightarrow>
        let W = int_sqrt D; H = int_sqrt D in
        (case model of
           CNN_model \<Rightarrow>
             if W * H = D then Inr (Images (reshape_N1WH N W H test_data))
             else Inl AssertionError
         | MLP_model \<Rightarrow> Inr (Flat test_data)
         | MyViT_model \<Rightarrow>
             if W * H = D then Inr (Images (reshape_N1WH N W H test_data))
             else Inl AssertionError
         | Other_model \<Rightarrow> Inr (Flat test_data)))"

section \<open>Principal component analysis\<close>

text \<open>\<^verbatim>\<open>PCA\<close>: \<open>None\<close> in \<open>pca_mean\<close> and \<open>pca_W\<close> is Python's \<^verbatim>\<open>None\<close>.\<close>

record PCA =
  pca_d :: int
  pca_mean :: "real list option"
  pca_W :: "real matrix option"

definition PCA_init :: "int \<Rightarrow> PCA" where
  "PCA_init d = \<lparr>pca_d = d, pca_mean = None, pca_W = None\<rparr>"

text \<open>
  A float that a division produces: dividing by zero gives an infinity or \<open>NaN\<close> and a
  warning, not an exception.
\<close>

datatype npfloat = Finite real | PlusInf | MinusInf | NaN

definition np_divide :: "real \<Rightarrow> real \<Rightarrow> npfloat" where
  "np_divide a b =
     (if b \<noteq> 0 then Finite (a / b)
      else if a = 0 then NaN
      else if 0 < a then PlusInf else MinusInf)"

text \<open>
  The outcome of a method: it returns a value, or raises; both leave the object in a new
  state. \<open>NotModelled\<close> stands for training data of no rows at all, where the mean and the
  covariance are \<open>NaN\<close> and what \<^verbatim>\<open>np.linalg.eigh\<close> makes of them is left open.
\<close>

datatype ('s, 'a) outcome = Returned 's 'a | Raised 's error | NotModelled

text \<open>\<^verbatim>\<open>np.mean(X, axis=0)\<close> of an array of shape \<open>(N, D)\<close>.\<close>

definition np_mean_axis0 :: "nat \<Rightarrow> nat \<Rightarrow> real matrix \<Rightarrow> real list" where
  "np_mean_axis0 N D X = map (\<lambda>j. sum_list (map (\<lambda>row. row ! j) X) / real N) [0..<D]"

text \<open>
  \<^verbatim>\<open>np.cov(X, rowvar=False)\<close> for \<open>N \<ge> 2\<close> rows and \<open>D \<noteq> 1\<close> columns: the columns are
  centred on their means, and entry \<open>(a, b)\<close> is the sum of the products of columns \<open>a\<close> and
  \<open>b\<close> over \<open>N - 1\<close>.
\<close>

definition np_cov :: "nat \<Rightarrow> nat \<Rightarrow> real matrix \<Rightarrow> real matrix" where
  "np_cov N D X =
     (let avg = np_mean_axis0 N D X;
          Xc = map (\<lambda>row. map2 (-) row avg) X
      in map (\<lambda>a. map (\<lambda>b. sum_list (map (\<lambda>row. row ! a * row ! b) Xc) / real (N - 1))
                  [0..<D])
           [0..<D])"

text \<open>The slice \<^verbatim>\<open>xs[:d]\<close>; a negative \<open>d\<close> counts from the end.\<close>

definition py_prefix :: "int \<Rightarrow> 'a list \<Rightarrow> 'a list" where
  "py_prefix d xs = (if 0 \<le> d then take (nat d) xs else take (length xs - nat (- d)) xs)"

text \<open>
  \<^verbatim>\<open>PCA.find_principal_components\<close>. The routine \<^verbatim>\<open>np.linalg.eigh\<close> is the parameter
  \<open>eigh\<close>: it returns the eigenvalues in ascending order and a matrix whose columns are the
  eigenvectors, or raises. For a single feature, and for a single row (which
  \<^verbatim>\<open>np.cov\<close> reads as one variable), \<^verbatim>\<open>np.cov\<close> returns a zero-dimensional array, which
  \<^verbatim>\<open>np.linalg.eigh\<close> rejects.
\<close>

definition find_principal_components ::
  "(real matrix \<Rightarrow> error + real list \<times> real matrix) \<Rightarrow> PCA \<Rightarrow> array2 \<Rightarrow>
     (PCA, npfloat) outcome" where
  "find_principal_components eigh self training_data =
     (case shape2 training_data of (N, D) \<Rightarrow>
        if N = 0 then NotModelled
        else
          let mean = np_mean_axis0 N D (data2 training_data);
              self = self\<lparr>pca_mean := Some mean\<rparr>;
              training_data_centered = map (\<lambda>row. map2 (-) row mean) (data2 training_data)
          in if N = 1 \<or> D = 1 then Raised self LinAlgError
             else
               (case eigh (np_cov N D training_data_centered) of
                  Inl e \<Rightarrow> Raised self e
                | Inr (eigvals, eigvecs) \<Rightarrow>
                    let eigvals = rev eigvals;
                        eigvecs = map rev eigvecs;
                        self = self\<lparr>pca_W := Some (map (py_prefix (pca_d self)) eigvecs)\<rparr>;
                        eg = py_prefix (pca_d self) eigvals;
                        exvar = (case np_divide (sum_list eg) (sum_list eigvals) of
                                   Finite r \<Rightarrow> Finite (r * 100)
                                 | other \<Rightarrow> other)
                    in Returned self exvar))"

text \<open>
  \<^verbatim>\<open>data - self.mean\<close> with numpy's broadcasting of a vector against the rows of an array
  of shape \<open>(N, D)\<close>.
\<close>

definition subtract_mean :: "nat \<Rightarrow> real matrix \<Rightarrow> real list \<Rightarrow> error + real matrix" where
  "subtract_mean D rows mean =
     (if length mean = D then Inr (map (\<lambda>row. map2 (-) row mean) rows)
      else if length mean = 1 then Inr (map (map (\<lambda>x. x - hd mean)) rows)
      else if D = 1 then Inr (map (\<lambda>row. map (\<lambda>m. hd row - m) mean) rows)
      else Inl ValueError)"

text \<open>
  \<^verbatim>\<open>PCA.reduce_dimension\<close>. Subtracting \<^verbatim>\<open>None\<close> from an array with at least one entry
  raises \<^verbatim>\<open>TypeError\<close>; from an empty array it gives an empty array, and the matrix product
  with \<^verbatim>\<open>None\<close> then raises \<^verbatim>\<open>ValueError\<close>.
\<close>

definition reduce_dimension :: "PCA \<Rightarrow> array2 \<Rightarrow> error + real matrix" where
  "reduce_dimension self data =
     (case shape2 data of (N, D) \<Rightarrow>
        (case pca_mean self of
           None \<Rightarrow> if N * D \<noteq> 0 then Inl TypeError else Inl ValueError
         | Some mean \<Rightarrow>
             ebind (subtract_mean D (data2 data) mean) (\<lambda>centered.
               (case pca_W self of
                  None \<Rightarrow> Inl ValueError
                | Some W \<Rightarrow>
                    if (if length mean = D then D else if length mean = 1 then D
                        else length mean) = length W
                    then Inr (matmul centered W)
                    else Inl ValueError))))"

text \<open>
  The result of \<^verbatim>\<open>np.linalg.eigh\<close> on a symmetric matrix \<open>C\<close>, as documented: as many
  eigenvalues as \<open>C\<close> has rows, in ascending order, and an orthogonal matrix whose column \<open>k\<close>
  is an eigenvector for eigenvalue \<open>k\<close>.
\<close>

definition mat_vec :: "real matrix \<Rightarrow> real list \<Rightarrow> real list" where
  "mat_vec A v = map (\<lambda>row. dot row v) A"

definition orthonormal :: "real list list \<Rightarrow> bool" where
  "orthonormal vs \<longleftrightarrow>
     list_all (\<lambda>a. list_all (\<lambda>b. dot (vs ! a) (vs ! b) = (if a = b then 1 else 0))
                  [0..<length vs])
       [0..<length vs]"

definition eigh_result :: "real matrix \<Rightarrow> real list \<Rightarrow> real matrix \<Rightarrow> bool" where
  "eigh_result C eigvals eigvecs \<longleftrightarrow>
     length eigvals = length C \<and> sorted eigvals \<and>
     length eigvecs = length C \<and> list_all (\<lambda>row. length row = length C) eigvecs \<and>
     orthonormal eigvecs \<and> orthonormal (map (column eigvecs) [0..<length C]) \<and>
     list_all (\<lambda>k. mat_vec C (column eigvecs k) = map (\<lambda>x. eigvals ! k * x) (column eigvecs k))
       [0..<length C]"

section \<open>A small vision transformer\<close>

text \<open>
  Concrete values for evaluating the model: a stand-in for \<^verbatim>\<open>nn.GELU\<close> (its sigmoid
  approximation), one transformer block of hidden dimension two with two heads, and a
  vision transformer for \<open>2 by 2\<close> images of one channel cut into four patches, with a given
  list of blocks and a given classification layer.
\<close>

definition gelu_sigmoid :: "real \<Rightarrow> real" where
  "gelu_sigmoid x = x / (1 + exp (- (1702 / 1000) * x))"

definition example_block :: MyViTBlock where
  "example_block =
     \<lparr>blk_hidden_d = 2, blk_n_heads = 2,
      norm1 = \<lparr>normalized_shape = 2, ln_weight = [1, 1], ln_bias = [0, 0]\<rparr>,
      mhsa = \<lparr>msa_d = 2, msa_n_heads = 2, msa_d_head = 1,
         q_mappings = replicate 2 \<lparr>in_features = 1, out_features = 1, weight = [[1]], bias = [0]\<rparr>,
         k_mappings = replicate 2 \<lparr>in_features = 1, out_features = 1, weight = [[1]], bias = [0]\<rparr>,
         v_mappings = replicate 2 \<lparr>in_features = 1, out_features = 1, weight = [[1]], bias = [0]\<rparr>\<rparr>,
      norm2 = \<lparr>normalized_shape = 2, ln_weight = [1, 1], ln_bias = [0, 0]\<rparr>,
      mlp_fc1 = \<lparr>in_features = 2, out_features = 8, weight = replicate 8 [1, 0],
                 bias = replicate 8 0\<rparr>,
      mlp_fc2 = \<lparr>in_features = 8, out_features = 2, weight = replicate 2 (replicate 8 0),
                 bias = [0, 0]\<rparr>\<rparr>"

definition example_vit :: "MyViTBlock list \<Rightarrow> linear \<Rightarrow> MyViT" where
  "example_vit bs head =
     \<lparr>chw = (1, 2, 2), vit_n_patches = 2, vit_n_blocks = length bs, vit_n_heads = 2,
      vit_hidden_d = 2, input_d = 1,
      linear_mapper = \<lparr>in_features = 1, out_features = 2, weight = [[1], [2]], bias = [0, 0]\<rparr>,
      class_token = [1 / 2, 1 / 2],
      positional_embeddings = get_positional_embeddings_second 5 2,
      blocks = bs, mlp = head\<rparr>"

text \<open>Auxiliary notions for the analysis of the loops of \<^verbatim>\<open>patchify\<close>.\<close>

text \<open>An image of c channels, h rows and w columns.\<close>

definition valid_image :: "nat \<Rightarrow> nat \<Rightarrow> nat \<Rightarrow> real matrix list \<Rightarrow> bool" where
  "valid_image c h w img \<longleftrightarrow> length img = c \<and>
     (\<forall>channel\<in>set img. length channel = h \<and> (\<forall>row\<in>set channel. length row = w))"

text \<open>The table of one image while its cells are written in order.\<close>

definition cells :: "(nat \<Rightarrow> nat \<Rightarrow> real list) \<Rightarrow> nat \<Rightarrow> nat \<Rightarrow> nat \<Rightarrow> real matrix" where
  "cells v np rl k =
     map (\<lambda>k. v (k div np) (k mod np)) [0..<k] @ replicate (np * np - k) (replicate rl 0)"

definition patch_table :: "nat \<Rightarrow> nat \<Rightarrow> real matrix list \<Rightarrow> real matrix" where
  "patch_table np s img =
     map (\<lambda>k. flatten3 (extract_patch img s (k div np) (k mod np))) [0..<np * np]"

section \<open>Filling a table entry by entry\<close>

lemma fill_row:
  assumes "i < length result" and "m \<le> length (result ! i)"
  shows "fold (\<lambda>j result. set2 result i j (g j)) [0..<m] result =
         result[i := map g [0..<m] @ drop m (result ! i)]"
  using assms(2)
proof (induction m)
  case 0
  then show ?case by simp
next
  case (Suc m)
  let ?r = "result ! i"
  have m: "m < length ?r" using Suc.prems by simp
  have d: "drop m ?r = ?r ! m # drop (Suc m) ?r"
    using m by (simp add: Cons_nth_drop_Suc)
  have upd: "(map g [0..<m] @ drop m ?r)[m := g m] =
      map g [0..<Suc m] @ drop (Suc m) ?r"
    by (subst d) (simp add: list_update_append)
  from Suc m assms(1) show ?case
    by (simp add: set2_def upd)
qed

lemma fill_table_prefix:
  assumes "n \<le> L"
  shows "fold (\<lambda>i result. fold (\<lambda>j result. set2 result i j (f i j)) [0..<d] result)
           [0..<n] (replicate L (replicate d c)) =
         map (\<lambda>i. map (f i) [0..<d]) [0..<n] @ replicate (L - n) (replicate d c)"
  using assms
proof (induction n)
  case 0
  then show ?case by simp
next
  case (Suc n)
  let ?A = "map (\<lambda>i. map (f i) [0..<d]) [0..<n]"
  let ?res = "?A @ replicate (L - n) (replicate d c)"
  have n: "n < L" using Suc.prems by simp
  have len: "n < length ?res" using n by simp
  have row: "?res ! n = replicate d c" using n by (simp add: nth_append)
  have rep: "replicate (L - n) (replicate d c) =
      replicate d c # replicate (L - Suc n) (replicate d c)"
    using n by (cases "L - n") (simp_all add: Suc_diff_Suc)
  have "fold (\<lambda>j result. set2 result n j (f n j)) [0..<d] ?res =
      ?res[n := map (f n) [0..<d] @ drop d (?res ! n)]"
    using len by (intro fill_row) (simp_all add: row)
  also have "\<dots> = ?res[n := map (f n) [0..<d]]"
    by (simp add: row)
  also have "\<dots> = ?A @ (replicate (L - n) (replicate d c))[0 := map (f n) [0..<d]]"
    by (simp add: list_update_append)
  also have "\<dots> = map (\<lambda>i. map (f i) [0..<d]) [0..<Suc n] @
      replicate (L - Suc n) (replicate d c)"
    by (subst rep) simp
  finally show ?case
    using Suc n by simp
qed

lemma fill_table:
  "fold (\<lambda>i result. fold (\<lambda>j result. set2 result i j (f i j)) [0..<d] result)
     [0..<L] (replicate L (replicate d c)) =
   map (\<lambda>i. map (f i) [0..<d]) [0..<L]"
  using fill_table_prefix [where n = L and L = L] by simp

lemma if_set2: "(if b then set2 r i j x else set2 r i j y) = set2 r i j (if b then x else y)"
  by simp

lemma get_positional_embeddings_map:
  "get_positional_embeddings sequence_length d =
     map (\<lambda>i. map (\<lambda>j. if j mod 2 = 0
                          then sin (real i / (10000 powr (real j / real d)))
                          else cos (real i / (10000 powr (real (j - 1) / real d))))
                [0..<d])
       [0..<sequence_length]"
  unfolding get_positional_embeddings_def if_set2 by (rule fill_table)

section \<open>Monadic loops\<close>

lemma foldM_append:
  "foldM f (xs @ ys) s = (case foldM f xs s of Inl e \<Rightarrow> Inl e | Inr s' \<Rightarrow> foldM f ys s')"
  by (induction xs arbitrary: s) (auto split: sum.splits)

lemma foldM_upt_Suc:
  "foldM f [0..<Suc m] s = (case foldM f [0..<m] s of Inl e \<Rightarrow> Inl e | Inr s' \<Rightarrow> f m s')"
  by (simp add: foldM_append split: sum.splits)

section \<open>The loops of patchify\<close>

lemma length_concat_uniform:
  "\<forall>xs\<in>set xss. length xs = m \<Longrightarrow> length (concat xss) = length xss * m"
  by (induction xss) auto

lemma nth_concat_uniform:
  "\<forall>xs\<in>set xss. length xs = m \<Longrightarrow> a < length xss \<Longrightarrow> b < m \<Longrightarrow>
   concat xss ! (a * m + b) = xss ! a ! b"
proof (induction xss arbitrary: a)
  case Nil
  then show ?case by simp
next
  case (Cons xs xss)
  show ?case
  proof (cases a)
    case 0
    with Cons.prems show ?thesis by (simp add: nth_append)
  next
    case (Suc a')
    with Cons.prems have "concat xss ! (a' * m + b) = xss ! a' ! b"
      by (intro Cons.IH) auto
    with Suc Cons.prems show ?thesis by (simp add: nth_append)
  qed
qed

lemma length_slice: "b \<le> length xs \<Longrightarrow> length (slice a b xs) = b - a"
  by (simp add: slice_def)

lemma nth_slice: "b \<le> length xs \<Longrightarrow> a + k < b \<Longrightarrow> slice a b xs ! k = xs ! (a + k)"
  by (simp add: slice_def)

lemma set_slice: "set (slice a b xs) \<subseteq> set xs"
  unfolding slice_def by (meson order_trans set_drop_subset set_take_subset)

lemma extract_patch_shape:
  assumes "valid_image c h h img" and "(i + 1) * s \<le> h" and "(j + 1) * s \<le> h"
  shows "length (extract_patch img s i j) = c"
    and "\<forall>channel\<in>set (extract_patch img s i j). length channel = s"
    and "\<forall>row\<in>set (concat (extract_patch img s i j)). length row = s"
proof -
  show "length (extract_patch img s i j) = c"
    using assms(1) by (simp add: extract_patch_def valid_image_def)
  show "\<forall>channel\<in>set (extract_patch img s i j). length channel = s"
    using assms by (auto simp: extract_patch_def valid_image_def length_slice)
  show "\<forall>row\<in>set (concat (extract_patch img s i j)). length row = s"
  proof
    fix row assume "row \<in> set (concat (extract_patch img s i j))"
    then obtain channel r where ch: "channel \<in> set img"
      and r: "r \<in> set (slice (i * s) ((i + 1) * s) channel)"
      and row: "row = slice (j * s) ((j + 1) * s) r"
      by (auto simp: extract_patch_def)
    from r have "r \<in> set channel" using set_slice by fastforce
    with ch assms(1) have "length r = h" by (auto simp: valid_image_def)
    with assms(3) row show "length row = s" by (simp add: length_slice)
  qed
qed

lemma length_flatten_patch:
  assumes "valid_image c h h img" and "(i + 1) * s \<le> h" and "(j + 1) * s \<le> h"
  shows "length (flatten3 (extract_patch img s i j)) = c * s * s"
proof -
  note sh = extract_patch_shape [OF assms]
  have "length (concat (extract_patch img s i j)) = c * s"
    using length_concat_uniform [OF sh(2)] sh(1) by simp
  with length_concat_uniform [OF sh(3)] show ?thesis
    by (simp add: flatten3_def)
qed

lemma nth_flatten_patch:
  assumes "valid_image c h h img" and "(i + 1) * s \<le> h" and "(j + 1) * s \<le> h"
    and "ch < c" and "r < s" and "q < s"
  shows "flatten3 (extract_patch img s i j) ! (ch * s * s + r * s + q) =
         img ! ch ! (i * s + r) ! (j * s + q)"
proof -
  note sh = extract_patch_shape [OF assms(1-3)]
  let ?p = "extract_patch img s i j"
  have len: "length (concat ?p) = c * s"
    using length_concat_uniform [OF sh(2)] sh(1) by simp
  have "ch * s + r < c * s"
  proof -
    have "ch * s + r < ch * s + s" using assms(5) by simp
    also have "\<dots> = (ch + 1) * s" by simp
    also have "\<dots> \<le> c * s" using assms(4) by (intro mult_le_mono1) simp
    finally show ?thesis .
  qed
  then have "concat (concat ?p) ! ((ch * s + r) * s + q) = concat ?p ! (ch * s + r) ! q"
    using nth_concat_uniform [OF sh(3), of "ch * s + r" q] assms(6) len by simp
  also have "concat ?p ! (ch * s + r) = ?p ! ch ! r"
    using nth_concat_uniform [OF sh(2), of ch r] assms(4,5) sh(1) by simp
  also have "?p ! ch ! r ! q = img ! ch ! (i * s + r) ! (j * s + q)"
  proof -
    have chl: "ch < length img" using assms(1,4) by (simp add: valid_image_def)
    then have mem: "img ! ch \<in> set img" by simp
    then have lc: "length (img ! ch) = h" using assms(1) by (simp add: valid_image_def)
    have ir: "i * s + r < (i + 1) * s" using assms(5) by simp
    then have "i * s + r < h" using assms(2) by simp
    then have "img ! ch ! (i * s + r) \<in> set (img ! ch)" using lc by simp
    with mem assms(1) have lr: "length (img ! ch ! (i * s + r)) = h"
      by (auto simp: valid_image_def)
    have jq: "j * s + q < (j + 1) * s" using assms(6) by simp
    show ?thesis
      using chl lc lr ir jq assms(2,3,5)
      by (simp add: extract_patch_def nth_slice length_slice)
  qed
  finally show ?thesis
    by (simp add: flatten3_def algebra_simps)
qed

lemma assign_patch_step:
  assumes "k < np * np" and "length x = rl"
  shows "assign_patch (A @ cells v np rl k # B) (length A) k x =
         Inr (A @ (map (\<lambda>k. v (k div np) (k mod np)) [0..<k] @ x #
                   replicate (np * np - Suc k) (replicate rl 0)) # B)"
proof -
  let ?Z = "replicate rl (0::real)"
  let ?c = "map (\<lambda>k. v (k div np) (k mod np)) [0..<k]"
  have rep: "replicate (np * np - k) ?Z = ?Z # replicate (np * np - Suc k) ?Z"
    using assms(1) by (cases "np * np - k") (simp_all add: Suc_diff_Suc)
  have R: "cells v np rl k = ?c @ ?Z # replicate (np * np - Suc k) ?Z"
    unfolding cells_def by (subst rep) simp
  have nthk: "(?c @ ?Z # replicate (np * np - Suc k) ?Z) ! k = ?Z"
    by (simp add: nth_append)
  have upd: "(?c @ ?Z # replicate (np * np - Suc k) ?Z)[k := x] =
      ?c @ x # replicate (np * np - Suc k) ?Z"
    by (simp add: list_update_append)
  show ?thesis
    unfolding R assign_patch_def Let_def
    by (simp add: nth_append list_update_append assms(2) nthk upd del: replicate_Suc)
qed

lemma cells_Suc:
  assumes "i < np" and "j < np"
  shows "map (\<lambda>k. v (k div np) (k mod np)) [0..<i * np + j] @ v i j #
           replicate (np * np - Suc (i * np + j)) (replicate rl 0) =
         cells v np rl (i * np + Suc j)"
  using assms by (simp add: cells_def)

lemma cell_index_less:
  assumes "i < np" and "j < np"
  shows "i * np + j < np * (np::nat)"
proof -
  have "i * np + j < i * np + np" using assms(2) by simp
  also have "\<dots> = (i + 1) * np" by simp
  also have "\<dots> \<le> np * np" using assms(1) by (intro mult_le_mono1) simp
  finally show ?thesis .
qed

lemma patch_columns_loop:
  assumes "i < np" and "m \<le> np" and "\<forall>j<np. length (v i j) = rl"
  shows "foldM (\<lambda>j patches. assign_patch patches (length A) (i * np + j) (v i j))
           [0..<m] (A @ cells v np rl (i * np) # B) =
         Inr (A @ cells v np rl (i * np + m) # B)"
  using assms(2)
proof (induction m)
  case 0
  then show ?case by simp
next
  case (Suc m)
  then have m: "m < np" by simp
  have "assign_patch (A @ cells v np rl (i * np + m) # B) (length A) (i * np + m) (v i m) =
      Inr (A @ cells v np rl (i * np + Suc m) # B)"
    using assign_patch_step [OF cell_index_less [OF assms(1) m], of "v i m" rl A v B]
      assms(3) m cells_Suc [OF assms(1) m, of v rl]
    by simp
  with Suc m show ?case
    by (simp add: foldM_upt_Suc del: upt_Suc)
qed

lemma patch_rows_loop:
  assumes "m \<le> np" and "\<forall>i<np. \<forall>j<np. length (v i j) = rl"
  shows "foldM (\<lambda>i patches.
            foldM (\<lambda>j patches. assign_patch patches (length A) (i * np + j) (v i j))
              [0..<np] patches)
           [0..<m] (A @ cells v np rl 0 # B) =
         Inr (A @ cells v np rl (m * np) # B)"
  using assms(1)
proof (induction m)
  case 0
  then show ?case by simp
next
  case (Suc m)
  then have m: "m < np" by simp
  have "foldM (\<lambda>j patches. assign_patch patches (length A) (m * np + j) (v m j))
      [0..<np] (A @ cells v np rl (m * np) # B) = Inr (A @ cells v np rl (m * np + np) # B)"
    using patch_columns_loop [OF m, of np v rl A B] assms(2) m by simp
  with Suc m show ?case
    by (simp add: foldM_upt_Suc add.commute del: upt_Suc)
qed

lemma cells_full: "cells (\<lambda>i j. flatten3 (extract_patch img s i j)) np rl (np * np) =
    patch_table np s img"
  by (simp add: cells_def patch_table_def)

lemma cells_empty: "cells v np rl 0 = replicate (np * np) (replicate rl 0)"
  by (simp add: cells_def)

lemma patch_fits:
  assumes "valid_image c (s * np) (s * np) img" and "i < np"
  shows "(i + 1) * s \<le> s * np"
proof -
  have "(i + 1) * s \<le> np * s" using assms(2) by (intro mult_le_mono1) simp
  then show ?thesis by (simp add: mult.commute)
qed

lemma patch_images_loop:
  assumes "\<forall>img\<in>set imgs. valid_image c (s * np) (s * np) img" and "length imgs \<le> n"
  shows "foldM (\<lambda>(idx, img) patches.
            foldM (\<lambda>i patches.
               foldM (\<lambda>j patches.
                  let patch = extract_patch img s i j
                  in assign_patch patches idx (i * np + j) (flatten3 patch))
                 [0..<np] patches)
              [0..<np] patches)
           (enumerate 0 imgs) (replicate n (replicate (np * np) (replicate (c * s * s) 0))) =
         Inr (map (patch_table np s) imgs @
              replicate (n - length imgs) (replicate (np * np) (replicate (c * s * s) 0)))"
  using assms
proof (induction imgs rule: rev_induct)
  case Nil
  then show ?case by simp
next
  case (snoc img imgs)
  let ?E = "replicate (np * np) (replicate (c * s * s) (0::real))"
  let ?A = "map (patch_table np s) imgs"
  let ?B = "replicate (n - Suc (length imgs)) ?E"
  let ?v = "\<lambda>i j. flatten3 (extract_patch img s i j)"
  have lt: "length imgs < n" using snoc.prems(2) by simp
  have rep: "replicate (n - length imgs) ?E = ?E # ?B"
    using lt by (cases "n - length imgs") (simp_all add: Suc_diff_Suc)
  have vi: "valid_image c (s * np) (s * np) img" using snoc.prems(1) by simp
  have lens: "\<forall>i<np. \<forall>j<np. length (?v i j) = c * s * s"
    using length_flatten_patch [OF vi] patch_fits [OF vi] by simp
  have IH: "foldM (\<lambda>(idx, img) patches.
            foldM (\<lambda>i patches.
               foldM (\<lambda>j patches.
                  let patch = extract_patch img s i j
                  in assign_patch patches idx (i * np + j) (flatten3 patch))
                 [0..<np] patches)
              [0..<np] patches)
           (enumerate 0 imgs) (replicate n ?E) = Inr (?A @ ?E # ?B)"
    using snoc.IH snoc.prems rep by simp
  have step: "foldM (\<lambda>i patches.
            foldM (\<lambda>j patches. assign_patch patches (length ?A) (i * np + j) (?v i j))
              [0..<np] patches)
           [0..<np] (?A @ cells ?v np (c * s * s) 0 # ?B) =
         Inr (?A @ cells ?v np (c * s * s) (np * np) # ?B)"
    using patch_rows_loop [OF le_refl lens, of ?A ?B] by simp
  show ?case
    using IH step lt
    by (simp add: enumerate_append_eq foldM_append cells_full cells_empty Let_def
        del: replicate_Suc)
qed

lemma valid4_images:
  assumes "valid4 images" and "shape4 images = (n, c, h, w)"
  shows "length (data4 images) = n" and "\<forall>img\<in>set (data4 images). valid_image c h w img"
  using assms by (auto simp: valid4_def valid_image_def list_all_iff)

lemma patchify_closed_form:
  assumes "valid4 images" and "shape4 images = (n, c, h, h)"
    and "0 < n_patches" and "h mod n_patches = 0"
  shows "patchify images n_patches =
     Inr \<lparr>shape3 = (n, n_patches ^ 2, c * (h div n_patches) ^ 2),
          data3 = map (patch_table n_patches (h div n_patches)) (data4 images)\<rparr>"
proof -
  define s where "s = h div n_patches"
  have h: "h = s * n_patches" using assms(4) by (auto simp: s_def)
  have rl: "h * h * c div (n_patches * n_patches) = c * s * s"
  proof -
    have eq: "h * h * c = (c * s * s) * (n_patches * n_patches)" by (simp add: h algebra_simps)
    have "(c * s * s) * (n_patches * n_patches) div (n_patches * n_patches) = c * s * s"
      using assms(3) by simp
    then show ?thesis by (simp only: eq)
  qed
  note v = valid4_images [OF assms(1,2)]
  have "foldM (\<lambda>(idx, img) patches.
            foldM (\<lambda>i patches.
               foldM (\<lambda>j patches.
                  let patch = extract_patch img s i j
                  in assign_patch patches idx (i * n_patches + j) (flatten3 patch))
                 [0..<n_patches] patches)
              [0..<n_patches] patches)
           (enumerate 0 (data4 images))
           (replicate n (replicate (n_patches * n_patches) (replicate (c * s * s) 0))) =
         Inr (map (patch_table n_patches s) (data4 images))"
    using patch_images_loop [of "data4 images" c s n_patches n] v by (simp add: h)
  then show ?thesis
    using assms(2,3) rl
    by (simp add: patchify_def ebind_def power2_eq_square s_def [symmetric] mult.assoc)
qed

lemma nth_patch_table:
  assumes "i < np" and "j < np"
  shows "patch_table np s img ! (i * np + j) = flatten3 (extract_patch img s i j)"
  using cell_index_less [OF assms] assms by (simp add: patch_table_def)

lemma patch_table_entry:
  assumes "valid_image c (s * np) (s * np) img"
    and "i < np" and "j < np" and "ch < c" and "r < s" and "q < s"
  shows "patch_table np s img ! (i * np + j) ! (ch * s * s + r * s + q) =
         img ! ch ! (i * s + r) ! (j * s + q)"
  using nth_flatten_patch [OF assms(1) patch_fits [OF assms(1,2)] patch_fits [OF assms(1,3)]
      assms(4,5,6)]
  by (simp add: nth_patch_table [OF assms(2,3)])

lemma reassemble_image:
  assumes "valid_image c (s * np) (s * np) img"
  shows "map (\<lambda>ch.
            map (\<lambda>r.
               map (\<lambda>q. patch_table np s img ! ((r div s) * np + q div s)
                            ! (ch * s * s + (r mod s) * s + q mod s))
                 [0..<s * np])
              [0..<s * np])
           [0..<c] = img"
proof (rule nth_equalityI)
  show "length (map (\<lambda>ch.
            map (\<lambda>r.
               map (\<lambda>q. patch_table np s img ! ((r div s) * np + q div s)
                            ! (ch * s * s + (r mod s) * s + q mod s))
                 [0..<s * np])
              [0..<s * np])
           [0..<c]) = length img"
    using assms by (simp add: valid_image_def)
next
  fix ch
  assume "ch < length (map (\<lambda>ch.
            map (\<lambda>r.
               map (\<lambda>q. patch_table np s img ! ((r div s) * np + q div s)
                            ! (ch * s * s + (r mod s) * s + q mod s))
                 [0..<s * np])
              [0..<s * np])
           [0..<c])"
  then have ch: "ch < c" by simp
  then have mem: "img ! ch \<in> set img" using assms by (simp add: valid_image_def)
  then have lc: "length (img ! ch) = s * np" using assms by (simp add: valid_image_def)
  have "map (\<lambda>r.
               map (\<lambda>q. patch_table np s img ! ((r div s) * np + q div s)
                            ! (ch * s * s + (r mod s) * s + q mod s))
                 [0..<s * np])
              [0..<s * np] = img ! ch"
  proof (rule nth_equalityI)
    show "length (map (\<lambda>r.
               map (\<lambda>q. patch_table np s img ! ((r div s) * np + q div s)
                            ! (ch * s * s + (r mod s) * s + q mod s))
                 [0..<s * np])
              [0..<s * np]) = length (img ! ch)"
      using lc by simp
  next
    fix r
    assume "r < length (map (\<lambda>r.
               map (\<lambda>q. patch_table np s img ! ((r div s) * np + q div s)
                            ! (ch * s * s + (r mod s) * s + q mod s))
                 [0..<s * np])
              [0..<s * np])"
    then have r: "r < s * np" by simp
    then have s: "0 < s" by (cases s) simp_all
    have "img ! ch ! r \<in> set (img ! ch)" using r lc by simp
    with mem assms have lr: "length (img ! ch ! r) = s * np" by (auto simp: valid_image_def)
    have ri: "r div s < np" using r s by (simp add: less_mult_imp_div_less mult.commute)
    have "map (\<lambda>q. patch_table np s img ! ((r div s) * np + q div s)
                            ! (ch * s * s + (r mod s) * s + q mod s))
                 [0..<s * np] = img ! ch ! r"
    proof (rule nth_equalityI)
      show "length (map (\<lambda>q. patch_table np s img ! ((r div s) * np + q div s)
                            ! (ch * s * s + (r mod s) * s + q mod s))
                 [0..<s * np]) = length (img ! ch ! r)"
        using lr by simp
    next
      fix q
      assume "q < length (map (\<lambda>q. patch_table np s img ! ((r div s) * np + q div s)
                            ! (ch * s * s + (r mod s) * s + q mod s))
                 [0..<s * np])"
      then have q: "q < s * np" by simp
      have qj: "q div s < np" using q s by (simp add: less_mult_imp_div_less mult.commute)
      have "patch_table np s img ! ((r div s) * np + q div s)
              ! (ch * s * s + (r mod s) * s + q mod s) =
            img ! ch ! ((r div s) * s + r mod s) ! ((q div s) * s + q mod s)"
        using patch_table_entry [OF assms ri qj ch, of "r mod s" "q mod s"] s by simp
      then show "map (\<lambda>q. patch_table np s img ! ((r div s) * np + q div s)
                            ! (ch * s * s + (r mod s) * s + q mod s))
                 [0..<s * np] ! q = img ! ch ! r ! q"
        using q by simp
    qed
    then show "map (\<lambda>r.
               map (\<lambda>q. patch_table np s img ! ((r div s) * np + q div s)
                            ! (ch * s * s + (r mod s) * s + q mod s))
                 [0..<s * np])
              [0..<s * np] ! r = img ! ch ! r"
      using r by simp
  qed
  then show "map (\<lambda>ch.
            map (\<lambda>r.
               map (\<lambda>q. patch_table np s img ! ((r div s) * np + q div s)
                            ! (ch * s * s + (r mod s) * s + q mod s))
                 [0..<s * np])
              [0..<s * np])
           [0..<c] ! ch = img ! ch"
    using ch by simp
qed

section \<open>Properties of patchify\<close>

text \<open>
  Claim C6. For an image batch of shape \<open>(N, C, H, H)\<close> and a patch count that divides \<open>H\<close>
  (a patch count of zero makes the code divide by zero, so it is positive), \<open>patchify\<close>
  returns a tensor of shape \<open>(N, n_patches\<^sup>2, C * s\<^sup>2)\<close> with \<open>s = H div n_patches\<close>, whose row at
  position \<open>i * n_patches + j\<close> holds the block of rows \<open>[i*s, (i+1)*s)\<close> and columns
  \<open>[j*s, (j+1)*s)\<close> of every channel: the pixel at channel \<open>ch\<close>, block row \<open>r\<close> and block
  column \<open>q\<close> stands at offset \<open>ch*s*s + r*s + q\<close>.
\<close>

theorem patchify_rows:
  assumes "valid4 images" and "shape4 images = (N, C, H, H)"
    and "0 < n_patches" and "H mod n_patches = 0"
  shows "\<exists>patches. patchify images n_patches = Inr patches \<and>
     shape3 patches = (N, n_patches ^ 2, C * (H div n_patches) ^ 2) \<and>
     length (data3 patches) = N \<and>
     (\<forall>idx<N. length (data3 patches ! idx) = n_patches ^ 2 \<and>
        (\<forall>i<n_patches. \<forall>j<n_patches.
           length (data3 patches ! idx ! (i * n_patches + j)) = C * (H div n_patches) ^ 2 \<and>
           (\<forall>ch<C. \<forall>r<H div n_patches. \<forall>q<H div n_patches.
              data3 patches ! idx ! (i * n_patches + j)
                ! (ch * (H div n_patches) * (H div n_patches) + r * (H div n_patches) + q) =
              data4 images ! idx ! ch ! (i * (H div n_patches) + r)
                ! (j * (H div n_patches) + q))))"
proof -
  define s where "s = H div n_patches"
  have H: "H = s * n_patches" using assms(4) by (auto simp: s_def)
  note v = valid4_images [OF assms(1,2)]
  have vi: "valid_image C (s * n_patches) (s * n_patches) (data4 images ! idx)" if "idx < N" for idx
    using v that by (simp add: H [symmetric])
  have len: "length (patch_table n_patches s (data4 images ! idx) ! (i * n_patches + j)) = C * s ^ 2"
    if "idx < N" "i < n_patches" "j < n_patches" for idx i j
    using length_flatten_patch [OF vi [OF that(1)] patch_fits [OF vi [OF that(1)] that(2)]
        patch_fits [OF vi [OF that(1)] that(3)]]
    by (simp add: nth_patch_table [OF that(2,3)] power2_eq_square mult.assoc)
  show ?thesis
    unfolding patchify_closed_form [OF assms] s_def [symmetric]
    using v(1) len patch_table_entry [OF vi]
    by (simp add: patch_table_def power2_eq_square)
qed

text \<open>
  Claim C2. Under the same conditions, putting every row of the result of \<open>patchify\<close> back
  into its grid cell gives the image batch that was patchified.
\<close>

theorem patchify_round_trip:
  assumes "valid4 images" and "shape4 images = (N, C, H, H)"
    and "0 < n_patches" and "H mod n_patches = 0"
  shows "\<exists>patches. patchify images n_patches = Inr patches \<and>
     unpatchify C H n_patches patches = images"
proof -
  define s where "s = H div n_patches"
  have H: "H = s * n_patches" using assms(4) by (auto simp: s_def)
  note v = valid4_images [OF assms(1,2)]
  have "map (\<lambda>img. map (\<lambda>ch.
            map (\<lambda>r.
               map (\<lambda>q. patch_table n_patches s img ! ((r div s) * n_patches + q div s)
                            ! (ch * s * s + (r mod s) * s + q mod s))
                 [0..<s * n_patches])
              [0..<s * n_patches])
           [0..<C]) (data4 images) = data4 images"
    using v(2) reassemble_image [of C s n_patches] by (intro map_idI) (simp add: H)
  then have "data4 (unpatchify C H n_patches
      \<lparr>shape3 = (N, n_patches ^ 2, C * s ^ 2),
       data3 = map (patch_table n_patches s) (data4 images)\<rparr>) = data4 images"
    by (simp add: unpatchify_def Let_def comp_def s_def [symmetric] H [symmetric])
  then show ?thesis
    unfolding patchify_closed_form [OF assms] s_def [symmetric]
    using assms(2) by (simp add: unpatchify_def Let_def)
qed

theorem patchify_rows_witness:
  "valid4 \<lparr>shape4 = (1, 2, 2, 2), data4 = [[[[1, 2], [3, 4]], [[5, 6], [7, 8]]]]\<rparr> \<and>
   (0::nat) < 2 \<and> (2::nat) mod 2 = 0 \<and>
   (\<exists>patches.
      patchify \<lparr>shape4 = (1, 2, 2, 2), data4 = [[[[1, 2], [3, 4]], [[5, 6], [7, 8]]]]\<rparr> 2 =
        Inr patches \<and>
      shape3 patches = (1, 4, 2) \<and> data3 patches ! 0 ! 3 ! 1 = 8)"
proof -
  let ?images = "\<lparr>shape4 = (1, 2, 2, 2), data4 = [[[[1, 2], [3, 4]], [[5, 6], [7, 8::real]]]]\<rparr>"
  have v: "valid4 ?images" by (simp add: valid4_def)
  have s: "shape4 ?images = (1, 2, 2, 2)" by simp
  have p: "(0::nat) < 2" and m: "(2::nat) mod 2 = 0" by simp_all
  from patchify_rows [OF v s p m] obtain patches where
    A: "patchify ?images 2 = Inr patches \<and>
     shape3 patches = (1, 2 ^ 2, 2 * (2 div 2) ^ 2) \<and>
     length (data3 patches) = 1 \<and>
     (\<forall>idx<1. length (data3 patches ! idx) = 2 ^ 2 \<and>
        (\<forall>i<2. \<forall>j<2.
           length (data3 patches ! idx ! (i * 2 + j)) = 2 * (2 div 2) ^ 2 \<and>
           (\<forall>ch<2. \<forall>r<2 div 2. \<forall>q<2 div 2.
              data3 patches ! idx ! (i * 2 + j)
                ! (ch * (2 div 2) * (2 div 2) + r * (2 div 2) + q) =
              data4 ?images ! idx ! ch ! (i * (2 div 2) + r)
                ! (j * (2 div 2) + q))))" ..
  note P = A [THEN conjunct1] and S = A [THEN conjunct2, THEN conjunct1]
    and E = A [THEN conjunct2, THEN conjunct2, THEN conjunct2]
  have b: "(0::nat) < 1" "(1::nat) < 2" "(0::nat) < 2 div 2" by simp_all
  from E [rule_format, OF b(1), THEN conjunct2, rule_format, OF b(2) b(2), THEN conjunct2,
      rule_format, OF b(2) b(3) b(3)]
  have "data3 patches ! 0 ! (1 * 2 + 1) ! (1 * (2 div 2) * (2 div 2) + 0 * (2 div 2) + 0) =
      data4 ?images ! 0 ! 1 ! (1 * (2 div 2) + 0) ! (1 * (2 div 2) + 0)" .
  then have e: "data3 patches ! 0 ! 3 ! 1 = 8" by simp
  from S have s': "shape3 patches = (1, 4, 2)" by simp
  from P s' e have "\<exists>patches. patchify ?images 2 = Inr patches \<and>
      shape3 patches = (1, 4, 2) \<and> data3 patches ! 0 ! 3 ! 1 = 8"
    by (intro exI [of _ patches] conjI)
  with v p m show ?thesis by (intro conjI)
qed

theorem patchify_round_trip_witness:
  "valid4 \<lparr>shape4 = (1, 2, 2, 2), data4 = [[[[1, 2], [3, 4]], [[5, 6], [7, 8]]]]\<rparr> \<and>
   (0::nat) < 2 \<and> (2::nat) mod 2 = 0 \<and>
   (\<exists>patches.
      patchify \<lparr>shape4 = (1, 2, 2, 2), data4 = [[[[1, 2], [3, 4]], [[5, 6], [7, 8]]]]\<rparr> 2 =
        Inr patches \<and>
      unpatchify 2 2 2 patches =
        \<lparr>shape4 = (1, 2, 2, 2), data4 = [[[[1, 2], [3, 4]], [[5, 6], [7, 8]]]]\<rparr>)"
proof -
  let ?images = "\<lparr>shape4 = (1, 2, 2, 2), data4 = [[[[1, 2], [3, 4]], [[5, 6], [7, 8::real]]]]\<rparr>"
  have v: "valid4 ?images" by (simp add: valid4_def)
  have s: "shape4 ?images = (1, 2, 2, 2)" by simp
  have p: "(0::nat) < 2" and m: "(2::nat) mod 2 = 0" by simp_all
  have "\<exists>patches. patchify ?images 2 = Inr patches \<and> unpatchify 2 2 2 patches = ?images"
    by (rule patchify_round_trip [OF v s p m])
  with v p m show ?thesis by (intro conjI)
qed

section \<open>Properties of the positional embeddings\<close>

lemma powr_half_10000: "(10000::real) powr (1 / 2) = 100"
proof -
  have "sqrt (10000::real) = 100" by (rule real_sqrt_unique) simp_all
  then show ?thesis by (simp add: powr_half_sqrt)
qed

lemma powr_quarter_10000: "(10000::real) powr (1 / 4) = 10"
proof -
  have "(10000::real) = 10 powr 4" by simp
  then have "(10000::real) powr (1 / 4) = (10 powr 4) powr (1 / 4)" by simp
  also have "\<dots> = 10 powr 1" unfolding powr_powr by simp
  finally show ?thesis by simp
qed

lemma sin_tenth_neq: "sin (1 / 100 :: real) \<noteq> sin (1 / 10)"
proof
  assume eq: "sin (1 / 100 :: real) = sin (1 / 10)"
  have "(2::real) \<le> pi" by (rule pi_ge_two)
  then have "- (pi / 2) \<le> (1 / 100 :: real)" "(1 / 100 :: real) \<le> pi / 2"
    "- (pi / 2) \<le> (1 / 10 :: real)" "(1 / 10 :: real) \<le> pi / 2"
    by simp_all
  from sin_inj_pi [OF this eq] show False by simp
qed

text \<open>
  Claim C7, as the code has it. The table has \<open>L\<close> rows of \<open>d\<close> entries; entry \<open>(i, j)\<close> is
  \<open>sin (i / 10000 powr (j / d))\<close> for even \<open>j\<close> and \<open>cos (i / 10000 powr ((j - 1) / d))\<close> for odd
  \<open>j\<close>; hence the columns \<open>2k\<close> and \<open>2k + 1\<close> of a row share the exponent
  \<open>10000 powr (2k / d)\<close>.
\<close>

theorem get_positional_embeddings_table:
  "length (get_positional_embeddings L d) = L \<and>
   (\<forall>i<L. length (get_positional_embeddings L d ! i) = d \<and>
      (\<forall>j<d. get_positional_embeddings L d ! i ! j =
         (if j mod 2 = 0 then sin (real i / (10000 powr (real j / real d)))
          else cos (real i / (10000 powr (real (j - 1) / real d))))) \<and>
      (\<forall>k. 2 * k + 1 < d \<longrightarrow>
         get_positional_embeddings L d ! i ! (2 * k) =
           sin (real i / (10000 powr (real (2 * k) / real d))) \<and>
         get_positional_embeddings L d ! i ! (2 * k + 1) =
           cos (real i / (10000 powr (real (2 * k) / real d)))))"
  by (simp add: get_positional_embeddings_map)

theorem get_positional_embeddings_table_witness:
  "length (get_positional_embeddings 2 4) = 2 \<and>
   length (get_positional_embeddings 2 4 ! 1) = 4 \<and>
   get_positional_embeddings 2 4 ! 1 ! 2 = sin (1 / 100) \<and>
   get_positional_embeddings 2 4 ! 1 ! 3 = cos (1 / 100)"
proof -
  have "2 * 1 + 1 < (4::nat)" and "(1::nat) < 2" by simp_all
  with get_positional_embeddings_table [of 2 4]
  have "length (get_positional_embeddings 2 4) = 2"
    and "length (get_positional_embeddings 2 4 ! 1) = 4"
    and "get_positional_embeddings 2 4 ! 1 ! (2 * 1) =
           sin (real 1 / (10000 powr (real (2 * 1) / real 4)))"
    and "get_positional_embeddings 2 4 ! 1 ! (2 * 1 + 1) =
           cos (real 1 / (10000 powr (real (2 * 1) / real 4)))"
    by blast+
  then show ?thesis by (simp add: powr_half_10000)
qed

text \<open>
  Claim C7 as stated gives the pair of columns \<open>2k\<close> and \<open>2k + 1\<close> the exponent
  \<open>10000 powr (k / d)\<close>. With \<open>d = 4\<close>, \<open>k = 1\<close> and row \<open>1\<close> that would be \<open>sin (1 / 10)\<close> in
  column \<open>2\<close>; the code computes \<open>sin (1 / 100)\<close>.
\<close>

theorem get_positional_embeddings_pair_counterexample:
  "get_positional_embeddings 2 4 ! 1 ! (2 * 1) \<noteq> sin (real 1 / (10000 powr (real 1 / real 4)))"
proof -
  have "get_positional_embeddings 2 4 ! 1 ! (2 * 1) = sin (1 / 100)"
    by (simp add: get_positional_embeddings_map powr_half_10000)
  then show ?thesis
    using sin_tenth_neq by (simp add: powr_quarter_10000)
qed

text \<open>
  Claim C9. The two definitions of \<open>get_positional_embeddings\<close> in the source return the same
  table for every sequence length and dimension.
\<close>

theorem get_positional_embeddings_duplicate:
  "get_positional_embeddings_second sequence_length d =
   get_positional_embeddings sequence_length d"
  by (simp add: get_positional_embeddings_second_def get_positional_embeddings_def)

section \<open>The reshaping of the trainer\<close>

lemma upt2: "[0..<2] = [0, 1]"
  by (simp add: upt_conv_Cons)

lemma int_sqrt_square: "int_sqrt (s * s) = s"
proof -
  have "sqrt (real (s * s)) = real s" by simp
  then show ?thesis unfolding int_sqrt_def by simp
qed

lemma int_sqrt_not_square:
  assumes "\<forall>s. s * s \<noteq> D"
  shows "int_sqrt D * int_sqrt D \<noteq> D"
  using assms by blast

lemma length_slice_row:
  assumes "r < s" and "length row = s * s"
  shows "length (slice (r * s) ((r + 1) * s) row) = s"
proof -
  have "r + 1 \<le> s" using assms(1) by simp
  then have "(r + 1) * s \<le> s * s" by (rule mult_le_mono1)
  then have "min (length row) ((r + 1) * s) = (r + 1) * s" using assms(2) by simp
  then show ?thesis unfolding slice_def length_drop length_take by simp
qed

lemma reshape_N1WH_valid:
  assumes "valid2 a" and "shape2 a = (N, s * s)"
  shows "valid4 (reshape_N1WH N s s a)"
  using assms
  by (auto simp: valid2_def valid4_def reshape_N1WH_def list_all_iff
      length_slice_row [simplified])

lemma reshape_N1WH_entry:
  assumes "valid2 a" and "shape2 a = (N, s * s)" and "n < N" and "r < s" and "q < s"
  shows "data4 (reshape_N1WH N s s a) ! n ! 0 ! r ! q = data2 a ! n ! (r * s + q)"
proof -
  have len: "length (data2 a) = N" "length (data2 a ! n) = s * s"
    using assms(1,2,3) by (auto simp: valid2_def list_all_length)
  have "r + 1 \<le> s" using assms(4) by simp
  then have "(r + 1) * s \<le> s * s" by (rule mult_le_mono1)
  then have "(r + 1) * s \<le> length (data2 a ! n)" by (simp add: len)
  moreover have "r * s + q < (r + 1) * s" using assms(5) by simp
  ultimately show ?thesis
    using assms(3,4) len(1) by (simp add: reshape_N1WH_def slice_def)
qed

text \<open>
  Claim C10. For a model that is a \<open>CNN\<close> or a \<open>MyViT\<close> and data of shape \<open>(N, D)\<close>, both
  \<open>fit\<close> and \<open>predict\<close> fail with an assertion error when \<open>D\<close> is not a perfect square, and
  otherwise take \<open>s = int (sqrt D)\<close> and reshape the data to \<open>(N, 1, s, s)\<close>, one channel, row
  \<open>r\<close> of an image being the entries \<open>r * s, ..., r * s + s - 1\<close> of its data row. Both
  functions take the model and the data only: no channel count or spatial size is passed.
\<close>

theorem Trainer_reshapes_to_square:
  assumes "model = CNN_model \<or> model = MyViT_model" and "shape2 data = (N, D)"
  shows "((\<forall>s. s * s \<noteq> D) \<longrightarrow>
            Trainer_fit_input model data = Inl AssertionError \<and>
            Trainer_predict_input model data = Inl AssertionError) \<and>
         (\<forall>s. s * s = D \<longrightarrow>
            int_sqrt D = s \<and>
            Trainer_fit_input model data = Inr (Images (reshape_N1WH N s s data)) \<and>
            Trainer_predict_input model data = Inr (Images (reshape_N1WH N s s data)) \<and>
            shape4 (reshape_N1WH N s s data) = (N, 1, s, s) \<and>
            (valid2 data \<longrightarrow>
               valid4 (reshape_N1WH N s s data) \<and>
               (\<forall>n<N. \<forall>r<s. \<forall>q<s.
                  data4 (reshape_N1WH N s s data) ! n ! 0 ! r ! q =
                  data2 data ! n ! (r * s + q))))"
proof (intro conjI allI impI)
  assume "\<forall>s. s * s \<noteq> D"
  then have "int_sqrt D * int_sqrt D \<noteq> D" by (rule int_sqrt_not_square)
  with assms show "Trainer_fit_input model data = Inl AssertionError"
    and "Trainer_predict_input model data = Inl AssertionError"
    by (auto simp: Trainer_fit_input_def Trainer_predict_input_def)
next
  fix s assume s: "s * s = D"
  then show r: "int_sqrt D = s" using int_sqrt_square [of s] by simp
  from r s assms show "Trainer_fit_input model data = Inr (Images (reshape_N1WH N s s data))"
    by (auto simp: Trainer_fit_input_def)
  from r s assms show "Trainer_predict_input model data = Inr (Images (reshape_N1WH N s s data))"
    by (auto simp: Trainer_predict_input_def)
  show "shape4 (reshape_N1WH N s s data) = (N, 1, s, s)"
    by (simp add: reshape_N1WH_def)
  assume v: "valid2 data"
  from assms(2) s have sh: "shape2 data = (N, s * s)" by simp
  from v sh show "valid4 (reshape_N1WH N s s data)" by (rule reshape_N1WH_valid)
  fix n r q assume "n < N" "r < s" "q < s"
  with v sh show "data4 (reshape_N1WH N s s data) ! n ! 0 ! r ! q = data2 data ! n ! (r * s + q)"
    by (rule reshape_N1WH_entry)
qed

lemma three_not_square: "\<forall>s::nat. s * s \<noteq> 3"
proof
  fix s :: nat
  show "s * s \<noteq> 3"
  proof (cases "s \<le> 1")
    case True
    then have "s * s \<le> 1 * 1" by (intro mult_le_mono)
    then show ?thesis by simp
  next
    case False
    then have "2 * 2 \<le> s * s" by (intro mult_le_mono) simp_all
    then show ?thesis by simp
  qed
qed

theorem Trainer_reshapes_to_square_witness:
  "Trainer_fit_input MyViT_model \<lparr>shape2 = (1, 3), data2 = [[1, 2, 3]]\<rparr> = Inl AssertionError \<and>
   Trainer_predict_input CNN_model \<lparr>shape2 = (1, 4), data2 = [[1, 2, 3, 4]]\<rparr> =
     Inr (Images \<lparr>shape4 = (1, 1, 2, 2), data4 = [[[[1, 2], [3, 4]]]]\<rparr>)"
proof -
  have a: "MyViT_model = CNN_model \<or> MyViT_model = MyViT_model" by simp
  have b: "shape2 \<lparr>shape2 = (1, 3), data2 = [[1, 2, 3::real]]\<rparr> = (1, 3)" by simp
  note t1 = Trainer_reshapes_to_square [OF a b, THEN conjunct1, THEN mp, OF three_not_square,
      THEN conjunct1]
  have c: "CNN_model = CNN_model \<or> CNN_model = MyViT_model" by simp
  have d: "shape2 \<lparr>shape2 = (1, 4), data2 = [[1, 2, 3, 4::real]]\<rparr> = (1, 4)" by simp
  have e: "(2::nat) * 2 = 4" by simp
  note t2 = Trainer_reshapes_to_square [OF c d, THEN conjunct2, rule_format, OF e,
      THEN conjunct2, THEN conjunct2, THEN conjunct1]
  have "reshape_N1WH 1 2 2 \<lparr>shape2 = (1, 4), data2 = [[1, 2, 3, 4::real]]\<rparr> =
      \<lparr>shape4 = (1, 1, 2, 2), data4 = [[[[1, 2], [3, 4]]]]\<rparr>"
    by (simp add: reshape_N1WH_def slice_def upt2)
  with t1 t2 show ?thesis by simp
qed

section \<open>Attention without softmax\<close>

text \<open>
  Claim C1 says that each head computes \<open>softmax (q k\<^sup>T / sqrt d_head) v\<close>. The code multiplies
  the scaled scores by \<open>v\<close> directly. With one head of dimension one whose three mappings are
  the identity, and the sequence of the two tokens \<open>[1]\<close> and \<open>[1]\<close>, every score is \<open>1\<close>: the
  code returns \<open>1 + 1 = 2\<close> for each token, the attention with softmax returns
  \<open>1/2 + 1/2 = 1\<close>.
\<close>

theorem MyMSA_forward_omits_softmax:
  "valid_MyMSA 1 1
     \<lparr>msa_d = 1, msa_n_heads = 1, msa_d_head = 1,
      q_mappings = [\<lparr>in_features = 1, out_features = 1, weight = [[1]], bias = [0]\<rparr>],
      k_mappings = [\<lparr>in_features = 1, out_features = 1, weight = [[1]], bias = [0]\<rparr>],
      v_mappings = [\<lparr>in_features = 1, out_features = 1, weight = [[1]], bias = [0]\<rparr>]\<rparr> \<and>
   MyMSA_forward
     \<lparr>msa_d = 1, msa_n_heads = 1, msa_d_head = 1,
      q_mappings = [\<lparr>in_features = 1, out_features = 1, weight = [[1]], bias = [0]\<rparr>],
      k_mappings = [\<lparr>in_features = 1, out_features = 1, weight = [[1]], bias = [0]\<rparr>],
      v_mappings = [\<lparr>in_features = 1, out_features = 1, weight = [[1]], bias = [0]\<rparr>]\<rparr>
     [[[1], [1]]] = Inr [[[2], [2]]] \<and>
   MultiHeadSelfAttention
     \<lparr>msa_d = 1, msa_n_heads = 1, msa_d_head = 1,
      q_mappings = [\<lparr>in_features = 1, out_features = 1, weight = [[1]], bias = [0]\<rparr>],
      k_mappings = [\<lparr>in_features = 1, out_features = 1, weight = [[1]], bias = [0]\<rparr>],
      v_mappings = [\<lparr>in_features = 1, out_features = 1, weight = [[1]], bias = [0]\<rparr>]\<rparr>
     [[[1], [1]]] = Inr [[[1], [1]]]"
  by (simp add: valid_MyMSA_def valid_linear_def MyMSA_forward_def MyMSA_head_def
      MultiHeadSelfAttention_def MultiHeadSelfAttention_head_def ebind_def linear_forward_def
      linear_token_def dot_def slice_def matmul_transposed_def matmul_def ncols_def column_def
      hstack_def softmax_def upt2)

section \<open>Principal components: the explained variance\<close>

lemma dot_sum:
  assumes "length xs = n" and "length ys = n"
  shows "dot xs ys = (\<Sum>i<n. xs ! i * ys ! i)"
proof -
  have "sum_list (map2 (*) xs ys) = (\<Sum>i = 0..<length (map2 (*) xs ys). map2 (*) xs ys ! i)"
    by (rule sum_list_sum_nth)
  also have "\<dots> = (\<Sum>i = 0..<n. xs ! i * ys ! i)"
    using assms by (intro sum.cong) simp_all
  finally show ?thesis by (simp add: dot_def atLeast0LessThan)
qed

lemma sum_list_map_nth: "sum_list (map f xs) = (\<Sum>i<length xs. f (xs ! i))"
proof -
  have "sum_list (map f xs) = (\<Sum>i = 0..<length (map f xs). map f xs ! i)"
    by (rule sum_list_sum_nth)
  also have "\<dots> = (\<Sum>i = 0..<length xs. f (xs ! i))"
    by (intro sum.cong) simp_all
  finally show ?thesis by (simp add: atLeast0LessThan)
qed

text \<open>The quadratic form of a matrix of sums of products of columns.\<close>

lemma gram_quadratic_form:
  assumes rows: "\<forall>row\<in>set Y. length row = D" and v: "length v = D"
  shows "dot v (mat_vec
           (map (\<lambda>a. map (\<lambda>b. sum_list (map (\<lambda>row. row ! a * row ! b) Y) / c) [0..<D]) [0..<D])
           v) =
         (\<Sum>i<length Y. (dot (Y ! i) v) ^ 2) / c"
proof -
  let ?G = "map (\<lambda>a. map (\<lambda>b. sum_list (map (\<lambda>row. row ! a * row ! b) Y) / c) [0..<D]) [0..<D]"
  let ?n = "length Y"
  have row: "dot (Y ! i) v = (\<Sum>a<D. Y ! i ! a * v ! a)" if "i < ?n" for i
    using rows v that by (intro dot_sum) simp_all
  have Ga: "dot (?G ! a) v = (\<Sum>b<D. (\<Sum>i<?n. Y ! i ! a * Y ! i ! b) / c * v ! b)" if "a < D" for a
  proof -
    have "dot (?G ! a) v = (\<Sum>b<D. ?G ! a ! b * v ! b)"
      using that v by (intro dot_sum) simp_all
    also have "\<dots> = (\<Sum>b<D. (\<Sum>i<?n. Y ! i ! a * Y ! i ! b) / c * v ! b)"
      using that by (intro sum.cong) (simp_all add: sum_list_map_nth)
    finally show ?thesis .
  qed
  have mv: "mat_vec ?G v ! a = (\<Sum>b<D. (\<Sum>i<?n. Y ! i ! a * Y ! i ! b) / c * v ! b)"
    if "a < D" for a
    using Ga [OF that] that by (simp add: mat_vec_def)
  have "dot v (mat_vec ?G v) = (\<Sum>a<D. v ! a * mat_vec ?G v ! a)"
    using v by (intro dot_sum) (simp_all add: mat_vec_def)
  also have "\<dots> = (\<Sum>a<D. v ! a * (\<Sum>b<D. (\<Sum>i<?n. Y ! i ! a * Y ! i ! b) / c * v ! b))"
    by (intro sum.cong refl) (simp only: mv lessThan_iff)
  also have "\<dots> = (\<Sum>a<D. \<Sum>b<D. \<Sum>i<?n. (Y ! i ! a * v ! a) * (Y ! i ! b * v ! b)) / c"
    by (simp add: sum_distrib_left sum_distrib_right sum_divide_distrib mult_ac)
  also have "(\<Sum>a<D. \<Sum>b<D. \<Sum>i<?n. (Y ! i ! a * v ! a) * (Y ! i ! b * v ! b)) =
      (\<Sum>i<?n. \<Sum>a<D. \<Sum>b<D. (Y ! i ! a * v ! a) * (Y ! i ! b * v ! b))"
  proof -
    have "(\<Sum>a<D. \<Sum>b<D. \<Sum>i<?n. (Y ! i ! a * v ! a) * (Y ! i ! b * v ! b)) =
        (\<Sum>a<D. \<Sum>i<?n. \<Sum>b<D. (Y ! i ! a * v ! a) * (Y ! i ! b * v ! b))"
      by (rule sum.cong [OF refl]) (rule sum.swap)
    also have "\<dots> = (\<Sum>i<?n. \<Sum>a<D. \<Sum>b<D. (Y ! i ! a * v ! a) * (Y ! i ! b * v ! b))"
      by (rule sum.swap)
    finally show ?thesis .
  qed
  also have "\<dots> = (\<Sum>i<?n. (dot (Y ! i) v) ^ 2)"
    by (intro sum.cong refl) (simp add: row power2_eq_square sum_product)
  finally show ?thesis .
qed

lemma gram_quadratic_form_nonneg:
  assumes "\<forall>row\<in>set Y. length row = D" and "length v = D" and "0 \<le> c"
  shows "0 \<le> dot v (mat_vec
           (map (\<lambda>a. map (\<lambda>b. sum_list (map (\<lambda>row. row ! a * row ! b) Y) / c) [0..<D]) [0..<D])
           v)"
  unfolding gram_quadratic_form [OF assms(1,2)]
  using assms(3) by (intro divide_nonneg_nonneg sum_nonneg) simp_all

lemma dot_scale_right: "dot v (map (\<lambda>x. c * x) w) = c * dot v w"
proof (induction v arbitrary: w)
  case Nil
  then show ?case by (simp add: dot_def)
next
  case (Cons a v)
  then show ?case by (cases w) (simp_all add: dot_def algebra_simps)
qed

lemma eigenvalue_nonneg:
  assumes rows: "\<forall>row\<in>set Y. length row = D" and c: "0 \<le> c"
    and res: "eigh_result
      (map (\<lambda>a. map (\<lambda>b. sum_list (map (\<lambda>row. row ! a * row ! b) Y) / c) [0..<D]) [0..<D])
      eigvals eigvecs"
    and k: "k < D"
  shows "0 \<le> eigvals ! k"
proof -
  let ?G = "map (\<lambda>a. map (\<lambda>b. sum_list (map (\<lambda>row. row ! a * row ! b) Y) / c) [0..<D]) [0..<D]"
  let ?v = "column eigvecs k"
  have len: "length ?v = D" using res by (simp add: eigh_result_def column_def)
  have unit: "dot ?v ?v = 1"
    and eig: "mat_vec ?G ?v = map (\<lambda>x. eigvals ! k * x) ?v"
    using res k by (simp_all add: eigh_result_def orthonormal_def list_all_iff)
  have "eigvals ! k = eigvals ! k * dot ?v ?v" by (simp add: unit)
  also have "\<dots> = dot ?v (mat_vec ?G ?v)" by (simp add: eig dot_scale_right)
  also have "0 \<le> \<dots>" using rows len c by (rule gram_quadratic_form_nonneg)
  finally show ?thesis by simp
qed

lemma np_cov_eigenvalues_nonneg:
  assumes "\<forall>row\<in>set X. length row = D" and "2 \<le> N"
    and "eigh_result (np_cov N D X) eigvals eigvecs"
  shows "\<forall>x\<in>set eigvals. 0 \<le> x"
proof -
  let ?Y = "map (\<lambda>row. map2 (-) row (np_mean_axis0 N D X)) X"
  have rows: "\<forall>row\<in>set ?Y. length row = D"
    using assms(1) by (auto simp: np_mean_axis0_def)
  have res: "eigh_result
      (map (\<lambda>a. map (\<lambda>b. sum_list (map (\<lambda>row. row ! a * row ! b) ?Y) / real (N - 1)) [0..<D])
         [0..<D]) eigvals eigvecs"
    using assms(3) by (simp add: np_cov_def Let_def)
  then have len: "length eigvals = D" by (simp add: eigh_result_def)
  have "0 \<le> eigvals ! k" if "k < D" for k
    using rows _ res that by (rule eigenvalue_nonneg) simp
  with len show ?thesis by (auto simp: in_set_conv_nth)
qed

text \<open>The eigenvalues of a square matrix add up to its trace.\<close>

lemma sum_eigenvalues_trace:
  assumes sq: "length C = D" "\<forall>row\<in>set C. length row = D"
    and res: "eigh_result C eigvals eigvecs"
  shows "sum_list eigvals = (\<Sum>a<D. C ! a ! a)"
proof -
  have lv: "length eigvals = D" and le: "length eigvecs = D"
    and rows: "\<forall>row\<in>set eigvecs. length row = D"
    using res sq(1) by (simp_all add: eigh_result_def list_all_iff)
  have on: "dot (eigvecs ! a) (eigvecs ! b) = (if a = b then 1 else 0)" if "a < D" "b < D" for a b
    using res le that by (simp add: eigh_result_def orthonormal_def list_all_iff)
  have unit: "dot (column eigvecs k) (column eigvecs k) = 1" if "k < D" for k
    using res sq(1) that by (simp add: eigh_result_def orthonormal_def list_all_iff)
  have eig: "mat_vec C (column eigvecs k) = map (\<lambda>x. eigvals ! k * x) (column eigvecs k)"
    if "k < D" for k
    using res sq(1) that by (simp add: eigh_result_def list_all_iff)
  have lc: "length (column eigvecs k) = D" for k by (simp add: column_def le)
  have cn: "column eigvecs k ! a = eigvecs ! a ! k" if "a < D" for a k
    using that le by (simp add: column_def)
  have lam: "eigvals ! k = (\<Sum>a<D. \<Sum>b<D. eigvecs ! a ! k * (C ! a ! b * eigvecs ! b ! k))"
    if k: "k < D" for k
  proof -
    let ?v = "column eigvecs k"
    have mv: "mat_vec C ?v ! a = (\<Sum>b<D. C ! a ! b * eigvecs ! b ! k)" if "a < D" for a
    proof -
      have "mat_vec C ?v ! a = dot (C ! a) ?v" using that sq(1) by (simp add: mat_vec_def)
      also have "\<dots> = (\<Sum>b<D. C ! a ! b * ?v ! b)"
        using that sq lc by (intro dot_sum) simp_all
      also have "\<dots> = (\<Sum>b<D. C ! a ! b * eigvecs ! b ! k)"
        by (intro sum.cong refl) (simp add: cn)
      finally show ?thesis .
    qed
    have "eigvals ! k = eigvals ! k * dot ?v ?v" by (simp add: unit [OF k])
    also have "\<dots> = dot ?v (mat_vec C ?v)" by (simp add: eig [OF k] dot_scale_right)
    also have "\<dots> = (\<Sum>a<D. ?v ! a * mat_vec C ?v ! a)"
      using lc sq(1) by (intro dot_sum) (simp_all add: mat_vec_def)
    also have "\<dots> = (\<Sum>a<D. eigvecs ! a ! k * (\<Sum>b<D. C ! a ! b * eigvecs ! b ! k))"
      by (intro sum.cong refl) (simp add: cn mv)
    finally show ?thesis by (simp add: sum_distrib_left)
  qed
  have rowdot: "(\<Sum>k<D. eigvecs ! a ! k * eigvecs ! b ! k) = (if a = b then 1 else 0)"
    if "a < D" "b < D" for a b
  proof -
    have "dot (eigvecs ! a) (eigvecs ! b) = (\<Sum>k<D. eigvecs ! a ! k * eigvecs ! b ! k)"
      using that rows le by (intro dot_sum) simp_all
    then show ?thesis using on [OF that] by simp
  qed
  have "sum_list eigvals = (\<Sum>k<D. eigvals ! k)"
    using sum_list_sum_nth [of eigvals] by (simp add: lv atLeast0LessThan)
  also have "\<dots> = (\<Sum>k<D. \<Sum>a<D. \<Sum>b<D. eigvecs ! a ! k * (C ! a ! b * eigvecs ! b ! k))"
    by (intro sum.cong refl) (simp add: lam)
  also have "\<dots> = (\<Sum>a<D. \<Sum>k<D. \<Sum>b<D. eigvecs ! a ! k * (C ! a ! b * eigvecs ! b ! k))"
    by (rule sum.swap)
  also have "\<dots> = (\<Sum>a<D. \<Sum>b<D. \<Sum>k<D. eigvecs ! a ! k * (C ! a ! b * eigvecs ! b ! k))"
    by (rule sum.cong [OF refl]) (rule sum.swap)
  also have "\<dots> = (\<Sum>a<D. \<Sum>b<D. C ! a ! b * (\<Sum>k<D. eigvecs ! a ! k * eigvecs ! b ! k))"
    by (simp add: sum_distrib_left mult_ac)
  also have "\<dots> = (\<Sum>a<D. \<Sum>b<D. C ! a ! b * (if a = b then 1 else 0))"
    by (intro sum.cong refl) (simp add: rowdot)
  also have "\<dots> = (\<Sum>a<D. \<Sum>b<D. if a = b then C ! a ! b else 0)"
    by (intro sum.cong refl) simp
  also have "\<dots> = (\<Sum>a<D. C ! a ! a)"
    by (intro sum.cong refl) (simp add: sum.delta')
  finally show ?thesis .
qed

lemma sum_list_subtract_const:
  "sum_list (map (\<lambda>x. f x - c) xs) = sum_list (map f xs) - real (length xs) * (c :: real)"
  by (induction xs) (simp_all add: algebra_simps)

lemma nth_subtract_row:
  assumes "length row = D" and "length m = D" and "a < D"
  shows "map2 (-) row m ! a = row ! a - m ! a"
  using assms by simp

text \<open>Data centred on the column means have column means zero.\<close>

lemma centred_mean_zero:
  assumes len: "length X = N" and N: "0 < N" and rows: "\<forall>row\<in>set X. length row = D"
  shows "np_mean_axis0 N D (map (\<lambda>row. map2 (-) row (np_mean_axis0 N D X)) X) = replicate D 0"
proof (rule nth_equalityI)
  show "length (np_mean_axis0 N D (map (\<lambda>row. map2 (-) row (np_mean_axis0 N D X)) X)) =
      length (replicate D (0::real))"
    by (simp add: np_mean_axis0_def)
next
  fix a
  assume "a < length (np_mean_axis0 N D (map (\<lambda>row. map2 (-) row (np_mean_axis0 N D X)) X))"
  then have a: "a < D" by (simp add: np_mean_axis0_def)
  let ?m = "np_mean_axis0 N D X"
  let ?S = "sum_list (map (\<lambda>row. row ! a) X)"
  have lm: "length ?m = D" by (simp add: np_mean_axis0_def)
  have ma: "?m ! a = ?S / real N" using a by (simp add: np_mean_axis0_def)
  have "\<forall>row\<in>set X. map2 (-) row ?m ! a = row ! a - ?m ! a"
    using rows lm a nth_subtract_row by blast
  then have eq: "map (\<lambda>row. map2 (-) row ?m ! a) X = map (\<lambda>row. row ! a - ?m ! a) X"
    by (intro map_cong refl) blast
  have "sum_list (map (\<lambda>row. row ! a) (map (\<lambda>row. map2 (-) row ?m) X)) =
      sum_list (map (\<lambda>row. map2 (-) row ?m ! a) X)"
    by (simp only: map_map comp_def)
  also have "\<dots> = sum_list (map (\<lambda>row. row ! a - ?m ! a) X)"
    by (simp only: eq)
  also have "\<dots> = ?S - real (length X) * (?m ! a)"
    by (rule sum_list_subtract_const)
  also have "\<dots> = 0" using N by (simp add: len ma)
  finally show "np_mean_axis0 N D (map (\<lambda>row. map2 (-) row ?m) X) ! a = replicate D 0 ! a"
    using a by (simp add: np_mean_axis0_def)
qed

lemma subtract_zero_row: "map2 (-) row (replicate (length row) (0::real)) = row"
  by (induction row) simp_all

lemma subtract_zero_rows:
  assumes "\<forall>row\<in>set X. length row = D"
  shows "map (\<lambda>row. map2 (-) row (replicate D (0::real))) X = X"
  using assms subtract_zero_row by (intro map_idI) auto

text \<open>The covariance of centred data: \<^verbatim>\<open>np.cov\<close> centres them once more, on zero.\<close>

lemma np_cov_centred:
  assumes len: "length X = N" and N: "0 < N" and rows: "\<forall>row\<in>set X. length row = D"
  shows "np_cov N D (map (\<lambda>row. map2 (-) row (np_mean_axis0 N D X)) X) =
     map (\<lambda>a. map (\<lambda>b. sum_list (map (\<lambda>row. row ! a * row ! b)
                                   (map (\<lambda>row. map2 (-) row (np_mean_axis0 N D X)) X)) /
                         real (N - 1))
               [0..<D])
       [0..<D]"
proof -
  let ?X0 = "map (\<lambda>row. map2 (-) row (np_mean_axis0 N D X)) X"
  have rows0: "\<forall>row\<in>set ?X0. length row = D"
    using rows by (auto simp: np_mean_axis0_def)
  from centred_mean_zero [OF len N rows]
  have "np_mean_axis0 N D ?X0 = replicate D 0" .
  then show ?thesis
    unfolding np_cov_def Let_def by (simp only: subtract_zero_rows [OF rows0])
qed

lemma sum_list_pos_member:
  fixes xs :: "real list"
  assumes "\<forall>x\<in>set xs. 0 \<le> x" and "y \<in> set xs" and "0 < y"
  shows "0 < sum_list xs"
  using assms
proof (induction xs)
  case Nil
  then show ?case by simp
next
  case (Cons x xs)
  have nn: "0 \<le> sum_list xs" using Cons.prems(1) by (intro sum_list_nonneg) simp
  show ?case
  proof (cases "y = x")
    case True
    with Cons.prems(3) nn show ?thesis by simp
  next
    case False
    with Cons.prems have "0 < sum_list xs" by (intro Cons.IH) auto
    moreover have "0 \<le> x" using Cons.prems(1) by simp
    ultimately show ?thesis by simp
  qed
qed

text \<open>Two rows that differ in a feature give the covariance a positive trace.\<close>

lemma np_cov_trace_pos:
  assumes len: "length X = N" and N: "2 \<le> N" and rows: "\<forall>row\<in>set X. length row = D"
    and i: "i < N" and j: "j < N" and a: "a < D" and ne: "X ! i ! a \<noteq> X ! j ! a"
  shows "0 < (\<Sum>a<D. np_cov N D (map (\<lambda>row. map2 (-) row (np_mean_axis0 N D X)) X) ! a ! a)"
proof -
  let ?m = "np_mean_axis0 N D X"
  let ?X0 = "map (\<lambda>row. map2 (-) row ?m) X"
  let ?t = "\<lambda>a. sum_list (map (\<lambda>row. row ! a * row ! a) ?X0) / real (N - 1)"
  have N0: "0 < N" using N by simp
  have diag: "np_cov N D ?X0 ! a ! a = ?t a" if "a < D" for a
    using that by (simp add: np_cov_centred [OF len N0 rows])
  have nn: "0 \<le> ?t a" for a
    by (intro divide_nonneg_nonneg sum_list_nonneg) auto
  have lm: "length ?m = D" by (simp add: np_mean_axis0_def)
  obtain k where k: "k < N" "X ! k ! a \<noteq> ?m ! a"
    using i j ne by (cases "X ! i ! a = ?m ! a") auto
  have "length (X ! k) = D" using rows k(1) len by simp
  then have "?X0 ! k ! a = X ! k ! a - ?m ! a"
    using k(1) len lm a by (simp add: nth_subtract_row)
  with k(2) have nz: "?X0 ! k ! a \<noteq> 0" by simp
  have "map (\<lambda>row. row ! a * row ! a) ?X0 ! k \<in> set (map (\<lambda>row. row ! a * row ! a) ?X0)"
    using k(1) len by (intro nth_mem) simp
  moreover have "map (\<lambda>row. row ! a * row ! a) ?X0 ! k = ?X0 ! k ! a * ?X0 ! k ! a"
    using k(1) len by (intro nth_map) simp
  ultimately have mem:
    "?X0 ! k ! a * ?X0 ! k ! a \<in> set (map (\<lambda>row. row ! a * row ! a) ?X0)"
    by (simp only:)
  have "0 < sum_list (map (\<lambda>row. row ! a * row ! a) ?X0)"
  proof (rule sum_list_pos_member [OF _ mem])
    show "\<forall>x\<in>set (map (\<lambda>row. row ! a * row ! a) ?X0). 0 \<le> x" by auto
    show "0 < ?X0 ! k ! a * ?X0 ! k ! a" using nz by (auto simp: zero_less_mult_iff)
  qed
  then have pos: "0 < ?t a" using N by simp
  have "0 < (\<Sum>a<D. ?t a)"
    using a pos nn by (intro sum_pos2 [where i = a]) simp_all
  then show ?thesis by (simp add: diag)
qed

lemma sum_list_take_le:
  fixes xs :: "real list"
  assumes "\<forall>x\<in>set xs. 0 \<le> x"
  shows "0 \<le> sum_list (take n xs)" and "sum_list (take n xs) \<le> sum_list xs"
proof -
  have t: "\<forall>x\<in>set (take n xs). 0 \<le> x" and d: "\<forall>x\<in>set (drop n xs). 0 \<le> x"
    using assms by (auto dest: in_set_takeD in_set_dropD)
  from t show "0 \<le> sum_list (take n xs)" by (intro sum_list_nonneg) simp
  from d have "0 \<le> sum_list (drop n xs)" by (intro sum_list_nonneg) simp
  moreover have "sum_list xs = sum_list (take n xs) + sum_list (drop n xs)"
    by (metis append_take_drop_id sum_list_append)
  ultimately show "sum_list (take n xs) \<le> sum_list xs" by simp
qed

lemma np_cov_square:
  "length (np_cov N D X) = D" "\<forall>row\<in>set (np_cov N D X). length row = D"
  by (auto simp: np_cov_def Let_def)

text \<open>
  Claim C8, as the code has it. For training data of \<open>N \<ge> 2\<close> rows and \<open>D \<noteq> 1\<close> features in
  which two rows differ in some feature, and \<open>1 \<le> d \<le> D\<close>, when \<open>eigh\<close> returns what
  \<^verbatim>\<open>np.linalg.eigh\<close> documents, \<open>find_principal_components\<close> returns a number in \<open>[0, 100]\<close>,
  and \<open>100\<close> when \<open>d = D\<close>. That no eigenvalue is negative and that the eigenvalues do not
  sum to zero is proved from the covariance the code computes.
\<close>

theorem explained_variance_bounds:
  assumes "valid2 training_data" and "shape2 training_data = (N, D)"
    and "2 \<le> N" and "D \<noteq> 1"
    and "1 \<le> pca_d self" and "pca_d self \<le> int D"
    and "eigh (np_cov N D (map (\<lambda>row. map2 (-) row (np_mean_axis0 N D (data2 training_data)))
                             (data2 training_data))) = Inr (eigvals, eigvecs)"
    and "eigh_result (np_cov N D (map (\<lambda>row. map2 (-) row
                                      (np_mean_axis0 N D (data2 training_data)))
                             (data2 training_data))) eigvals eigvecs"
    and "i < N" and "j < N" and "a < D"
    and "data2 training_data ! i ! a \<noteq> data2 training_data ! j ! a"
  shows "\<exists>self' x. find_principal_components eigh self training_data =
             Returned self' (Finite x) \<and>
           0 \<le> x \<and> x \<le> 100 \<and> (pca_d self = int D \<longrightarrow> x = 100)"
proof -
  let ?mean = "np_mean_axis0 N D (data2 training_data)"
  let ?X = "map (\<lambda>row. map2 (-) row ?mean) (data2 training_data)"
  let ?eg = "take (nat (pca_d self)) (rev eigvals)"
  let ?x = "sum_list ?eg / sum_list eigvals * 100"
  have len: "length (data2 training_data) = N"
    and rows0: "\<forall>row\<in>set (data2 training_data). length row = D"
    using assms(1,2) by (auto simp: valid2_def list_all_iff)
  have rows: "\<forall>row\<in>set ?X. length row = D"
    using rows0 by (auto simp: np_mean_axis0_def)
  have nonneg: "\<forall>x\<in>set eigvals. 0 \<le> x"
    using rows assms(3,8) by (rule np_cov_eigenvalues_nonneg)
  have "sum_list eigvals = (\<Sum>a<D. np_cov N D ?X ! a ! a)"
    using np_cov_square assms(8) by (rule sum_eigenvalues_trace)
  also have "0 < \<dots>"
    using len assms(3) rows0 assms(9,10,11,12) by (rule np_cov_trace_pos)
  finally have pos: "0 < sum_list eigvals" .
  have nonneg': "\<forall>x\<in>set (rev eigvals). 0 \<le> x" using nonneg by simp
  have lo: "0 \<le> sum_list ?eg" and hi: "sum_list ?eg \<le> sum_list eigvals"
    using sum_list_take_le [OF nonneg', of "nat (pca_d self)"] by (simp_all add: sum_list_rev)
  have lv: "length eigvals = D"
    using assms(8) by (simp add: eigh_result_def np_cov_def Let_def)
  have run: "find_principal_components eigh self training_data =
      Returned (self\<lparr>pca_mean := Some ?mean,
                      pca_W := Some (map (py_prefix (pca_d self)) (map rev eigvecs))\<rparr>)
        (Finite ?x)"
    using assms(2,3,4,5,7) pos
    by (simp add: find_principal_components_def Let_def np_divide_def py_prefix_def)
  have b0: "0 \<le> ?x" using lo pos by simp
  have b1: "?x \<le> 100" using hi pos by (simp add: divide_le_eq)
  have full: "?x = 100" if "pca_d self = int D"
    using that lv pos by simp
  from run b0 b1 full show ?thesis by blast
qed

lemma py_prefix_all: "int (length xs) \<le> d \<Longrightarrow> py_prefix d xs = xs"
  by (simp add: py_prefix_def)

text \<open>
  Claim C4, as the code has it. With \<open>d\<close> greater than the number \<open>D\<close> of features (and
  \<open>N \<ge> 2\<close>, \<open>D \<noteq> 1\<close>), \<open>find_principal_components\<close> raises nothing on account of \<open>d\<close>: when
  \<open>eigh\<close> returns \<open>D\<close> eigenvalues and eigenvectors, the slices keep all of them, \<open>W\<close> is the
  whole reversed eigenvector matrix and the explained variance is \<open>100\<close> (or \<open>NaN\<close> when the
  eigenvalues sum to zero).
\<close>

theorem find_principal_components_keeps_all:
  assumes "shape2 training_data = (N, D)" and "2 \<le> N" and "D \<noteq> 1"
    and "int D < pca_d self"
    and "eigh (np_cov N D (map (\<lambda>row. map2 (-) row (np_mean_axis0 N D (data2 training_data)))
                             (data2 training_data))) = Inr (eigvals, eigvecs)"
    and "length eigvals = D" and "list_all (\<lambda>row. length row = D) eigvecs"
  shows "find_principal_components eigh self training_data =
     Returned (self\<lparr>pca_mean := Some (np_mean_axis0 N D (data2 training_data)),
                     pca_W := Some (map rev eigvecs)\<rparr>)
       (if sum_list eigvals = 0 then NaN else Finite 100)"
proof -
  have vals: "py_prefix (pca_d self) (rev eigvals) = rev eigvals"
    using assms(4,6) by (intro py_prefix_all) simp
  have "\<forall>row\<in>set eigvecs. py_prefix (pca_d self) (rev row) = rev row"
    using assms(4,7) by (auto simp: list_all_iff intro!: py_prefix_all)
  then have vecs: "map (py_prefix (pca_d self)) (map rev eigvecs) = map rev eigvecs"
    by simp
  show ?thesis
    using assms(1,2,3,5) vals vecs
    by (simp add: find_principal_components_def Let_def np_divide_def sum_list_rev)
qed

theorem find_principal_components_keeps_all_witness:
  "find_principal_components (\<lambda>C. Inr ([0, 2], [[0, 1], [1, 0]])) (PCA_init 3)
     \<lparr>shape2 = (2, 2), data2 = [[1, 0], [3, 0]]\<rparr> =
   Returned \<lparr>pca_d = 3, pca_mean = Some [2, 0], pca_W = Some [[1, 0], [0, 1]]\<rparr> (Finite 100)"
proof -
  let ?data = "\<lparr>shape2 = (2, 2), data2 = [[1, 0], [3, 0::real]]\<rparr>"
  let ?eigh = "\<lambda>C :: real matrix. Inr ([0, 2], [[0, 1], [1, 0]]) :: error + real list \<times> real matrix"
  have a: "shape2 ?data = (2, 2)" by simp
  have b: "(2::nat) \<le> 2" "(2::nat) \<noteq> 1" by simp_all
  have c: "int 2 < pca_d (PCA_init 3)" by (simp add: PCA_init_def)
  have d: "?eigh (np_cov 2 2 (map (\<lambda>row. map2 (-) row (np_mean_axis0 2 2 (data2 ?data)))
      (data2 ?data))) = Inr ([0, 2], [[0, 1], [1, 0]])" by simp
  have e: "length [0, 2 :: real] = 2" "list_all (\<lambda>row. length row = 2) [[0, 1], [1, 0 :: real]]"
    by simp_all
  have m: "np_mean_axis0 2 2 [[1, 0], [3, 0]] = [2, 0]" by (simp add: np_mean_axis0_def upt2)
  from find_principal_components_keeps_all [of ?data 2 2 "PCA_init 3" ?eigh, OF a b c d e]
  show ?thesis by (simp add: m PCA_init_def)
qed

theorem explained_variance_bounds_witness:
  "\<exists>self' x.
     find_principal_components (\<lambda>C. Inr ([0, 2], [[0, 1], [1, 0]])) (PCA_init 2)
       \<lparr>shape2 = (2, 2), data2 = [[1, 0], [3, 0]]\<rparr> = Returned self' (Finite x) \<and>
     0 \<le> x \<and> x \<le> 100 \<and> x = 100"
proof -
  let ?data = "\<lparr>shape2 = (2, 2), data2 = [[1, 0], [3, 0::real]]\<rparr>"
  let ?eigh = "\<lambda>C :: real matrix. Inr ([0, 2], [[0, 1], [1, 0]]) :: error + real list \<times> real matrix"
  have v: "valid2 ?data" by (simp add: valid2_def)
  have a: "shape2 ?data = (2, 2)" by simp
  have b: "(2::nat) \<le> 2" "(2::nat) \<noteq> 1" by simp_all
  have c: "1 \<le> pca_d (PCA_init 2)" "pca_d (PCA_init 2) \<le> int 2" by (simp_all add: PCA_init_def)
  have d: "?eigh (np_cov 2 2 (map (\<lambda>row. map2 (-) row (np_mean_axis0 2 2 (data2 ?data)))
      (data2 ?data))) = Inr ([0, 2], [[0, 1], [1, 0]])" by simp
  have e: "eigh_result (np_cov 2 2 (map (\<lambda>row. map2 (-) row (np_mean_axis0 2 2 (data2 ?data)))
      (data2 ?data))) [0, 2] [[0, 1], [1, 0]]"
    by (simp add: eigh_result_def orthonormal_def np_cov_def np_mean_axis0_def dot_def
        column_def mat_vec_def upt2 Let_def)
  have f: "(0::nat) < 2" "(1::nat) < 2" "(0::nat) < 2"
    "data2 ?data ! 0 ! 0 \<noteq> data2 ?data ! 1 ! 0" by simp_all
  from explained_variance_bounds [of ?data 2 2 "PCA_init 2" ?eigh, OF v a b c d e f]
  obtain self' x where
    A: "find_principal_components ?eigh (PCA_init 2) ?data = Returned self' (Finite x) \<and>
        0 \<le> x \<and> x \<le> 100 \<and> (pca_d (PCA_init 2) = int 2 \<longrightarrow> x = 100)"
    by (elim exE)
  have "pca_d (PCA_init 2) = int 2" by (simp add: PCA_init_def)
  with A have "x = 100" by (elim conjE) (erule mp)
  with A show ?thesis by (intro exI [of _ self'] exI [of _ x]) (elim conjE, intro conjI)
qed

text \<open>
  Claim C8 as stated covers every training array. For constant data of two features the
  covariance and its eigenvalues vanish and the result is \<open>NaN\<close>; for a single feature the
  call raises.
\<close>

theorem explained_variance_counterexample:
  "find_principal_components (\<lambda>C. Inr ([0, 0], [[1, 0], [0, 1]])) (PCA_init 1)
     \<lparr>shape2 = (2, 2), data2 = [[1, 1], [1, 1]]\<rparr> =
   Returned \<lparr>pca_d = 1, pca_mean = Some [1, 1], pca_W = Some [[0], [1]]\<rparr> NaN \<and>
   np_cov 2 2 (map (\<lambda>row. map2 (-) row (np_mean_axis0 2 2 [[1, 1], [1, 1]])) [[1, 1], [1, 1]]) =
     [[0, 0], [0, 0]] \<and>
   eigh_result [[0, 0], [0, 0]] [0, 0] [[1, 0], [0, 1]] \<and>
   find_principal_components (\<lambda>C. Inr ([0, 0], [[1, 0], [0, 1]])) (PCA_init 1)
     \<lparr>shape2 = (2, 1), data2 = [[1], [3]]\<rparr> =
   Raised \<lparr>pca_d = 1, pca_mean = Some [2], pca_W = None\<rparr> LinAlgError"
  by (simp add: find_principal_components_def PCA_init_def np_mean_axis0_def py_prefix_def
      np_divide_def np_cov_def eigh_result_def orthonormal_def dot_def column_def mat_vec_def
      upt2 Let_def)

text \<open>
  Claim C4 as stated has the call fail when \<open>d\<close> exceeds the number of features. With three
  components asked of two features it returns, with a \<open>W\<close> of two columns.
\<close>

theorem find_principal_components_no_error_counterexample:
  "find_principal_components (\<lambda>C. Inr ([0, 2], [[0, 1], [1, 0]])) (PCA_init 3)
     \<lparr>shape2 = (2, 2), data2 = [[1, 0], [3, 0]]\<rparr> =
   Returned \<lparr>pca_d = 3, pca_mean = Some [2, 0], pca_W = Some [[1, 0], [0, 1]]\<rparr> (Finite 100) \<and>
   np_cov 2 2 [[-1, 0], [1, 0]] = [[2, 0], [0, 0]] \<and>
   eigh_result [[2, 0], [0, 0]] [0, 2] [[0, 1], [1, 0]]"
  by (simp add: find_principal_components_def PCA_init_def np_mean_axis0_def py_prefix_def
      np_divide_def np_cov_def eigh_result_def orthonormal_def dot_def column_def mat_vec_def
      upt2)

text \<open>
  Claim C5. On a \<open>PCA\<close> that was never fitted, \<open>reduce_dimension\<close> raises for every data
  array: \<open>TypeError\<close> when the array has an entry, \<open>ValueError\<close> when it is empty. It never
  returns an array.
\<close>

theorem reduce_dimension_unfitted:
  "reduce_dimension (PCA_init d) data =
     Inl (if fst (shape2 data) * snd (shape2 data) \<noteq> 0 then TypeError else ValueError)"
  by (simp add: reduce_dimension_def PCA_init_def split: prod.splits)

section \<open>The forward pass of the vision transformer\<close>

lemma has_shape3_iff:
  "has_shape3 n L d x \<longleftrightarrow>
     length x = n \<and> (\<forall>sequence\<in>set x. length sequence = L \<and> (\<forall>token\<in>set sequence. length token = d))"
  by (auto simp: has_shape3_def list_all_iff)

lemma length_linear_token: "valid_linear n_in n_out l \<Longrightarrow> length (linear_token l x) = n_out"
  by (simp add: linear_token_def valid_linear_def)

lemma linear_forward3_shape:
  assumes "valid_linear n_in n_out l" and "has_shape3 n L n_in x"
  shows "\<exists>y. linear_forward3 l x = Inr y \<and> has_shape3 n L n_out y"
proof -
  have "list_all (list_all (\<lambda>token. length token = in_features l)) x"
    using assms by (auto simp: has_shape3_iff list_all_iff valid_linear_def)
  then have "linear_forward3 l x = Inr (map (map (linear_token l)) x)"
    by (simp add: linear_forward3_def)
  moreover have "has_shape3 n L n_out (map (map (linear_token l)) x)"
    using assms by (auto simp: has_shape3_iff length_linear_token)
  ultimately show ?thesis by blast
qed

lemma length_layer_norm_token:
  "valid_layer_norm d layer \<Longrightarrow> length x = d \<Longrightarrow> length (layer_norm_token layer x) = d"
  by (simp add: layer_norm_token_def valid_layer_norm_def Let_def)

lemma layer_norm_forward_shape:
  assumes "valid_layer_norm d layer" and "has_shape3 n L d x"
  shows "\<exists>y. layer_norm_forward layer x = Inr y \<and> has_shape3 n L d y"
proof -
  have "list_all (list_all (\<lambda>token. length token = normalized_shape layer)) x"
    using assms by (auto simp: has_shape3_iff list_all_iff valid_layer_norm_def)
  then have "layer_norm_forward layer x = Inr (map (map (layer_norm_token layer)) x)"
    by (simp add: layer_norm_forward_def)
  moreover have "has_shape3 n L d (map (map (layer_norm_token layer)) x)"
    using assms by (auto simp: has_shape3_iff length_layer_norm_token)
  ultimately show ?thesis by blast
qed

lemma map_const_replicate: "\<forall>x\<in>set xs. f x = c \<Longrightarrow> map f xs = replicate (length xs) c"
  by (induction xs) auto

lemma has_shape3_lengths:
  assumes "has_shape3 n L d x"
  shows "map (map length) x = replicate n (replicate L d)"
proof -
  have "\<forall>sequence\<in>set x. map length sequence = replicate L d"
    using assms by (auto simp: has_shape3_iff intro!: map_const_replicate [where xs = "s" for s, simplified])
  then show ?thesis
    using assms map_const_replicate [of x "map length" "replicate L d"]
    by (simp add: has_shape3_iff)
qed

lemma add3_shape:
  assumes "has_shape3 n L d x" and "has_shape3 n L d y"
  shows "\<exists>z. add3 x y = Inr z \<and> has_shape3 n L d z"
proof -
  have "add3 x y = Inr (map2 (map2 (map2 (+))) x y)"
    using has_shape3_lengths [OF assms(1)] has_shape3_lengths [OF assms(2)]
    by (simp add: add3_def)
  moreover have "has_shape3 n L d (map2 (map2 (map2 (+))) x y)"
    unfolding has_shape3_iff
  proof (intro conjI ballI)
    show "length (map2 (map2 (map2 (+))) x y) = n"
      using assms by (simp add: has_shape3_iff)
  next
    fix sequence assume "sequence \<in> set (map2 (map2 (map2 (+))) x y)"
    then obtain a b where ab: "a \<in> set x" "b \<in> set y" "sequence = map2 (map2 (+)) a b"
      by (auto dest: set_zip_leftD set_zip_rightD)
    with assms show "length sequence = L" by (simp add: has_shape3_iff)
    fix token assume "token \<in> set sequence"
    with ab obtain s t where "s \<in> set a" "t \<in> set b" "token = map2 (+) s t"
      by (auto dest: set_zip_leftD set_zip_rightD)
    with ab assms show "length token = d" by (simp add: has_shape3_iff)
  qed
  ultimately show ?thesis by blast
qed

lemma mapM_Inr:
  assumes "\<forall>x\<in>set xs. f x = Inr (g x)"
  shows "mapM f xs = Inr (map g xs)"
  using assms by (induction xs) simp_all

lemma mapM_all:
  assumes "\<forall>x\<in>set xs. \<exists>y. f x = Inr y \<and> P y"
  shows "\<exists>ys. mapM f xs = Inr ys \<and> length ys = length xs \<and> (\<forall>y\<in>set ys. P y)"
  using assms
proof (induction xs)
  case Nil
  then show ?case by simp
next
  case (Cons x xs)
  then obtain y where y: "f x = Inr y" "P y" by auto
  from Cons obtain ys where ys: "mapM f xs = Inr ys" "length ys = length xs" "\<forall>y\<in>set ys. P y"
    by auto
  from y ys show ?case by simp
qed

lemma sum_list_exp_pos: "xs \<noteq> [] \<Longrightarrow> 0 < sum_list (map exp (xs :: real list))"
proof (induction xs)
  case Nil
  then show ?case by simp
next
  case (Cons x xs)
  have "0 \<le> sum_list (map exp xs)" by (intro sum_list_nonneg) auto
  moreover have "0 < exp x" by simp
  ultimately have "0 < exp x + sum_list (map exp xs)" by (rule add_pos_nonneg [rotated])
  then show ?case by simp
qed

lemma sum_list_divide: "sum_list (map (\<lambda>x. f x / c) xs) = sum_list (map f xs) / (c :: real)"
  by (induction xs) (simp_all add: add_divide_distrib)

lemma softmax_distribution:
  assumes "xs \<noteq> []"
  shows "length (softmax xs) = length xs" and "\<forall>p\<in>set (softmax xs). 0 < p"
    and "sum_list (softmax xs) = 1"
proof -
  note pos = sum_list_exp_pos [OF assms]
  show "length (softmax xs) = length xs" by (simp add: softmax_def)
  show "\<forall>p\<in>set (softmax xs). 0 < p" using pos by (auto simp: softmax_def)
  show "sum_list (softmax xs) = 1"
    using pos by (simp add: softmax_def sum_list_divide)
qed

lemma linear_forward_rows:
  assumes "valid_linear n_in n_out l" and "\<forall>token\<in>set x. length token = n_in"
  shows "linear_forward l x = Inr (map (linear_token l) x)"
  using assms by (simp add: linear_forward_def valid_linear_def list_all_iff)

lemma length_head_slice:
  assumes "head < n_heads" and "length token = n_heads * d_head"
  shows "length (slice (head * d_head) ((head + 1) * d_head) token) = d_head"
proof -
  have "head + 1 \<le> n_heads" using assms(1) by simp
  then have "(head + 1) * d_head \<le> n_heads * d_head" by (rule mult_le_mono1)
  then show ?thesis using assms(2) by (simp add: length_slice)
qed

lemma MyMSA_head_shape:
  assumes v: "valid_MyMSA d n_heads self" and h: "head < n_heads"
    and L: "length sequence = L" "0 < L" and t: "\<forall>token\<in>set sequence. length token = d"
  shows "\<exists>r. MyMSA_head self sequence head = Inr r \<and> length r = L \<and>
           (\<forall>row\<in>set r. length row = d div n_heads)"
proof -
  let ?dh = "d div n_heads"
  let ?seq = "map (slice (head * ?dh) ((head + 1) * ?dh)) sequence"
  let ?q = "q_mappings self ! head" and ?k = "k_mappings self ! head"
    and ?v = "v_mappings self ! head"
  have d: "d = n_heads * ?dh" using v by (auto simp: valid_MyMSA_def)
  have dh: "msa_d_head self = ?dh" using v by (simp add: valid_MyMSA_def)
  have vq: "valid_linear ?dh ?dh ?q" and vk: "valid_linear ?dh ?dh ?k"
    and vv: "valid_linear ?dh ?dh ?v"
    using v h by (simp_all add: valid_MyMSA_def list_all_length)
  have seq: "\<forall>token\<in>set ?seq. length token = ?dh"
    using t d length_head_slice [OF h, of _ ?dh] by auto
  note lf = linear_forward_rows [OF vq seq] linear_forward_rows [OF vk seq]
    linear_forward_rows [OF vv seq]
  let ?vs = "map (linear_token ?v) ?seq"
  have "?vs \<noteq> []" using L by auto
  then have nc: "ncols ?vs = ?dh"
    using L length_linear_token [OF vv]
    by (cases sequence) (simp_all add: ncols_def)
  have run: "MyMSA_head self sequence head =
      Inr (matmul (map (map (\<lambda>x. x / sqrt (real ?dh)))
                     (matmul_transposed (map (linear_token ?q) ?seq) (map (linear_token ?k) ?seq)))
             ?vs)"
    unfolding MyMSA_head_def Let_def dh lf ebind_def by simp
  show ?thesis
    unfolding run using L nc by (simp add: matmul_def matmul_transposed_def)
qed

lemma hstack_shape:
  assumes "ms \<noteq> []"
    and "\<forall>m\<in>set ms. length m = L \<and> (\<forall>row\<in>set m. length row = w)"
  shows "\<exists>r. hstack ms = Inr r \<and> length r = L \<and> (\<forall>row\<in>set r. length row = length ms * w)"
proof -
  obtain m ms' where ms: "ms = m # ms'" using assms(1) by (cases ms) auto
  then have lm: "length m = L" using assms(2) by simp
  have "length (concat (map (\<lambda>m. m ! i) ms)) = length ms * w" if "i < L" for i
  proof -
    have "\<forall>xs\<in>set (map (\<lambda>m. m ! i) ms). length xs = w"
      using assms(2) that by auto
    from length_concat_uniform [OF this] show ?thesis by simp
  qed
  then show ?thesis
    using lm by (auto simp: hstack_def ms)
qed

lemma MyMSA_forward_shape:
  assumes v: "valid_MyMSA d n_heads self" and x: "has_shape3 n L d x"
    and n: "0 < n" and L: "0 < L"
  shows "\<exists>y. MyMSA_forward self x = Inr y \<and> has_shape3 n L d y"
proof -
  let ?dh = "d div n_heads"
  have nh: "0 < n_heads" "msa_n_heads self = n_heads" and d: "n_heads * ?dh = d"
    using v by (auto simp: valid_MyMSA_def)
  have one: "\<exists>r. ebind (mapM (MyMSA_head self sequence) [0..<msa_n_heads self]) hstack = Inr r \<and>
      (length r = L \<and> (\<forall>row\<in>set r. length row = d))"
    if "sequence \<in> set x" for sequence
  proof -
    have sl: "length sequence = L" and st: "\<forall>token\<in>set sequence. length token = d"
      using x that by (auto simp: has_shape3_iff)
    have "\<forall>head\<in>set [0..<n_heads]. \<exists>r. MyMSA_head self sequence head = Inr r \<and>
        (length r = L \<and> (\<forall>row\<in>set r. length row = ?dh))"
      using MyMSA_head_shape [OF v _ sl L st] by simp
    from mapM_all [OF this] obtain ms where
      ms: "mapM (MyMSA_head self sequence) [0..<n_heads] = Inr ms" "length ms = n_heads"
        "\<forall>m\<in>set ms. length m = L \<and> (\<forall>row\<in>set m. length row = ?dh)"
      by auto
    from ms(2) nh have "ms \<noteq> []" by auto
    from hstack_shape [OF this ms(3)] ms(1,2) d nh show ?thesis
      by (auto simp: ebind_def)
  qed
  then have "\<forall>sequence\<in>set x.
      \<exists>r. ebind (mapM (MyMSA_head self sequence) [0..<msa_n_heads self]) hstack = Inr r \<and>
      (length r = L \<and> (\<forall>row\<in>set r. length row = d))"
    by blast
  from mapM_all [OF this] obtain y where
    y: "mapM (\<lambda>sequence. ebind (mapM (MyMSA_head self sequence) [0..<msa_n_heads self]) hstack) x
          = Inr y"
      "length y = length x" "\<forall>r\<in>set y. length r = L \<and> (\<forall>row\<in>set r. length row = d)"
    by auto
  have "y \<noteq> []" using y(2) x n by (auto simp: has_shape3_iff)
  with y x show ?thesis
    by (auto simp: MyMSA_forward_def ebind_def has_shape3_iff)
qed

lemma has_shape3_map:
  "has_shape3 n L d x \<Longrightarrow> has_shape3 n L d (map (map (map f)) x)"
  by (auto simp: has_shape3_iff)

lemma MyViTBlock_forward_shape:
  assumes v: "valid_MyViTBlock d n_heads self" and x: "has_shape3 n L d x"
    and n: "0 < n" and L: "0 < L"
  shows "\<exists>y. MyViTBlock_forward gelu self x = Inr y \<and> has_shape3 n L d y"
proof -
  note v' = v [unfolded valid_MyViTBlock_def]
  from v' have n1: "valid_layer_norm d (norm1 self)" and n2: "valid_layer_norm d (norm2 self)"
    and m: "valid_MyMSA d n_heads (mhsa self)"
    and f1: "valid_linear d (4 * d) (mlp_fc1 self)" and f2: "valid_linear (4 * d) d (mlp_fc2 self)"
    by simp_all
  from layer_norm_forward_shape [OF n1 x] obtain a where
    a: "layer_norm_forward (norm1 self) x = Inr a" "has_shape3 n L d a" by auto
  from MyMSA_forward_shape [OF m a(2) n L] obtain b where
    b: "MyMSA_forward (mhsa self) a = Inr b" "has_shape3 n L d b" by auto
  from add3_shape [OF x b(2)] obtain out where
    out: "add3 x b = Inr out" "has_shape3 n L d out" by auto
  from layer_norm_forward_shape [OF n2 out(2)] obtain c where
    c: "layer_norm_forward (norm2 self) out = Inr c" "has_shape3 n L d c" by auto
  from linear_forward3_shape [OF f1 c(2)] obtain e where
    e: "linear_forward3 (mlp_fc1 self) c = Inr e" "has_shape3 n L (4 * d) e" by auto
  from linear_forward3_shape [OF f2 has_shape3_map [OF e(2)]] obtain g where
    g: "linear_forward3 (mlp_fc2 self) (map (map (map gelu)) e) = Inr g" "has_shape3 n L d g"
    by auto
  from add3_shape [OF out(2) g(2)] obtain y where
    y: "add3 out g = Inr y" "has_shape3 n L d y" by auto
  show ?thesis
    using a b out c e g y by (simp add: MyViTBlock_forward_def ebind_def)
qed

lemma blocks_shape:
  assumes "\<forall>block\<in>set bs. valid_MyViTBlock d n_heads block" and "has_shape3 n L d x"
    and "0 < n" and "0 < L"
  shows "\<exists>y. foldM (\<lambda>block out. MyViTBlock_forward gelu block out) bs x = Inr y \<and>
           has_shape3 n L d y"
  using assms
proof (induction bs arbitrary: x)
  case Nil
  then show ?case by simp
next
  case (Cons block bs)
  from Cons.prems have "valid_MyViTBlock d n_heads block" by simp
  from MyViTBlock_forward_shape [OF this Cons.prems(2,3,4)] obtain y where
    y: "MyViTBlock_forward gelu block x = Inr y" "has_shape3 n L d y" by auto
  from Cons.IH [OF _ y(2) Cons.prems(3,4)] Cons.prems(1) y(1) show ?case by simp
qed

lemma has_shape3_positional_embeddings:
  "has_shape3 n L d (replicate n (get_positional_embeddings_second L d))"
proof -
  have "get_positional_embeddings_second L d = get_positional_embeddings L d"
    by (simp add: get_positional_embeddings_second_def get_positional_embeddings_def)
  then show ?thesis
    by (auto simp: has_shape3_iff get_positional_embeddings_map)
qed

lemma MyViT_sequences_shape:
  assumes v: "valid_MyViT out_d self" and chw: "chw self = (c, h, h)"
    and x: "valid4 x" "shape4 x = (n, c, h, h)" and n: "0 < n"
  shows "\<exists>out. MyViT_sequences gelu self x = Inr out \<and>
           has_shape3 n (vit_n_patches self ^ 2 + 1) (vit_hidden_d self) out"
proof -
  let ?np = "vit_n_patches self" and ?hd = "vit_hidden_d self"
  let ?s = "h div ?np"
  let ?L = "?np ^ 2 + 1"
  note v' = v [unfolded valid_MyViT_def chw, simplified]
  from v' have np: "0 < ?np" and dv: "h mod ?np = 0"
    and ind: "input_d self = c * ?s * ?s"
    and lm0: "valid_linear (input_d self) ?hd (linear_mapper self)"
    and ct: "length (class_token self) = ?hd"
    and pe: "positional_embeddings self = get_positional_embeddings_second ?L ?hd"
    and bl: "\<forall>block\<in>set (blocks self). valid_MyViTBlock ?hd (vit_n_heads self) block"
    by (auto simp: list_all_iff)
  from lm0 have lm: "valid_linear (c * ?s * ?s) ?hd (linear_mapper self)"
    by (simp only: ind)
  let ?patches = "\<lparr>shape3 = (n, ?np ^ 2, c * ?s ^ 2),
                   data3 = map (patch_table ?np ?s) (data4 x)\<rparr>"
  have p: "patchify x ?np = Inr ?patches"
    using x np dv by (rule patchify_closed_form)
  let ?tokens = "map (map (linear_token (linear_mapper self))) (data3 ?patches)"
  have mp: "map_patches (linear_mapper self) ?patches = Inr ?tokens"
    using lm by (simp add: map_patches_def valid_linear_def power2_eq_square mult.assoc)
  let ?tokens' = "map (\<lambda>sequence. class_token self # sequence) ?tokens"
  have len: "length (data4 x) = n" using valid4_images [OF x] by simp
  have sh: "has_shape3 n ?L ?hd ?tokens'"
    using len ct length_linear_token [OF lm]
    by (auto simp: has_shape3_iff patch_table_def power2_eq_square)
  from add3_shape [OF sh has_shape3_positional_embeddings [of n ?L ?hd]] obtain out0 where
    out0: "add3 ?tokens' (replicate n (positional_embeddings self)) = Inr out0"
      "has_shape3 n ?L ?hd out0"
    by (auto simp: pe)
  from blocks_shape [OF bl out0(2) n, of gelu] obtain out where
    out: "foldM (\<lambda>block out. MyViTBlock_forward gelu block out) (blocks self) out0 = Inr out"
      "has_shape3 n ?L ?hd out"
    by auto
  have "MyViT_sequences gelu self x = Inr out"
    unfolding MyViT_sequences_def x(2) prod.case p ebind_def sum.case mp Let_def out0(1)
    by (rule out(1))
  with out(2) show ?thesis by blast
qed

lemma first_tokens:
  assumes "has_shape3 n L d out" and "0 < L"
  shows "mapM first_token out = Inr (map (\<lambda>sequence. sequence ! 0) out)"
proof (rule mapM_Inr, rule ballI)
  fix sequence assume "sequence \<in> set out"
  with assms have "sequence \<noteq> []" by (auto simp: has_shape3_iff)
  then show "first_token sequence = Inr (sequence ! 0)"
    by (cases sequence) (simp_all add: first_token_def)
qed

lemma MyViT_forward_closed_form:
  assumes v: "valid_MyViT out_d self" and chw: "chw self = (c, h, h)"
    and x: "valid4 x" "shape4 x = (n, c, h, h)" and n: "0 < n"
  shows "\<exists>out. MyViT_sequences gelu self x = Inr out \<and> length out = n \<and>
     MyViT_forward gelu self x =
       Inr (map (\<lambda>sequence. softmax (linear_token (mlp self) (sequence ! 0))) out)"
proof -
  let ?L = "vit_n_patches self ^ 2 + 1" and ?hd = "vit_hidden_d self"
  from MyViT_sequences_shape [OF v chw x n, of gelu] obtain out where
    out: "MyViT_sequences gelu self x = Inr out" "has_shape3 n ?L ?hd out"
    by auto
  have ml: "valid_linear ?hd out_d (mlp self)"
    using v by (auto simp: valid_MyViT_def chw)
  let ?firsts = "map (\<lambda>sequence. sequence ! 0) out"
  have ft: "mapM first_token out = Inr ?firsts"
    using out(2) by (rule first_tokens) simp
  have "\<forall>token\<in>set ?firsts. length token = ?hd"
    using out(2) by (auto simp: has_shape3_iff)
  from linear_forward_rows [OF ml this]
  have lf: "linear_forward (mlp self) ?firsts = Inr (map (linear_token (mlp self)) ?firsts)" .
  have "MyViT_forward gelu self x =
      Inr (map (\<lambda>sequence. softmax (linear_token (mlp self) (sequence ! 0))) out)"
    unfolding MyViT_forward_def out(1) ebind_def sum.case ft lf by (simp add: comp_def)
  moreover have "length out = n" using out(2) by (simp add: has_shape3_iff)
  ultimately show ?thesis using out(1) by blast
qed

text \<open>
  Claim C3, as the code has it. For a vision transformer as its constructor builds it, with
  at least one output class, and a batch of at least one square image of the constructor's
  shape, \<open>forward\<close> returns one row per image; the row is the softmax of the classification
  layer applied to the token at position \<open>0\<close> of the transformed sequence, has \<open>out_d\<close> entries,
  none negative, and sums to one.
\<close>

theorem MyViT_forward_distribution:
  assumes v: "valid_MyViT out_d self" and chw: "chw self = (c, h, h)"
    and x: "valid4 x" "shape4 x = (n, c, h, h)" and n: "0 < n" and o: "0 < out_d"
  shows "\<exists>out preds.
     MyViT_sequences gelu self x = Inr out \<and>
     MyViT_forward gelu self x = Inr preds \<and>
     preds = map (\<lambda>sequence. softmax (linear_token (mlp self) (sequence ! 0))) out \<and>
     length preds = n \<and>
     (\<forall>row\<in>set preds. length row = out_d \<and> (\<forall>p\<in>set row. 0 \<le> p) \<and> sum_list row = 1)"
proof -
  from MyViT_forward_closed_form [OF v chw x n, of gelu] obtain out where
    out: "MyViT_sequences gelu self x = Inr out" "length out = n"
      "MyViT_forward gelu self x =
         Inr (map (\<lambda>sequence. softmax (linear_token (mlp self) (sequence ! 0))) out)"
    by auto
  have ml: "valid_linear (vit_hidden_d self) out_d (mlp self)"
    using v by (auto simp: valid_MyViT_def chw)
  let ?preds = "map (\<lambda>sequence. softmax (linear_token (mlp self) (sequence ! 0))) out"
  have rows: "length row = out_d \<and> (\<forall>p\<in>set row. 0 \<le> p) \<and> sum_list row = 1"
    if "row \<in> set ?preds" for row
  proof -
    from that obtain sequence where
      row: "row = softmax (linear_token (mlp self) (sequence ! 0))" by auto
    have l: "length (linear_token (mlp self) (sequence ! 0)) = out_d"
      using ml by (rule length_linear_token)
    with o have ne: "linear_token (mlp self) (sequence ! 0) \<noteq> []" by auto
    from softmax_distribution [OF ne] l
    show ?thesis unfolding row by (auto intro: less_imp_le)
  qed
  from out rows show ?thesis by auto
qed

lemma valid_example_block: "valid_MyViTBlock 2 2 example_block"
  by (simp add: valid_MyViTBlock_def example_block_def valid_layer_norm_def valid_MyMSA_def
      valid_linear_def eval_nat_numeral)

lemma valid_example_vit:
  assumes "valid_linear 2 out_d head" and "\<forall>block\<in>set bs. valid_MyViTBlock 2 2 block"
  shows "valid_MyViT out_d (example_vit bs head)"
  using assms by (simp add: valid_MyViT_def example_vit_def valid_linear_def list_all_iff)

theorem MyViT_forward_distribution_witness:
  "\<exists>preds.
     MyViT_forward gelu_sigmoid
       (example_vit [example_block]
          \<lparr>in_features = 2, out_features = 3, weight = [[1, 0], [0, 1], [1, 1]],
           bias = [0, 0, 0]\<rparr>)
       \<lparr>shape4 = (1, 1, 2, 2), data4 = [[[[1, 2], [3, 4]]]]\<rparr> = Inr preds \<and>
     length preds = 1 \<and> length (preds ! 0) = 3 \<and> sum_list (preds ! 0) = 1"
proof -
  let ?head = "\<lparr>in_features = 2, out_features = 3, weight = [[1, 0], [0, 1], [1, 1::real]],
           bias = [0, 0, 0::real]\<rparr>"
  let ?x = "\<lparr>shape4 = (1, 1, 2, 2), data4 = [[[[1, 2], [3, 4::real]]]]\<rparr>"
  have "valid_linear 2 3 ?head" by (simp add: valid_linear_def)
  then have v: "valid_MyViT 3 (example_vit [example_block] ?head)"
    by (rule valid_example_vit) (simp add: valid_example_block)
  have c: "chw (example_vit [example_block] ?head) = (1, 2, 2)" by (simp add: example_vit_def)
  have x: "valid4 ?x" "shape4 ?x = (1, 1, 2, 2)" by (simp_all add: valid4_def)
  have n: "(0::nat) < 1" "(0::nat) < 3" by simp_all
  from MyViT_forward_distribution [OF v c x n, of gelu_sigmoid] obtain preds where
    A: "MyViT_forward gelu_sigmoid (example_vit [example_block] ?head) ?x = Inr preds"
      "length preds = 1"
      "\<forall>row\<in>set preds. length row = 3 \<and> (\<forall>p\<in>set row. 0 \<le> p) \<and> sum_list row = 1"
    by auto
  from A(2) have "preds ! 0 \<in> set preds" by simp
  with A(3) have "length (preds ! 0) = 3" "sum_list (preds ! 0) = 1" by auto
  with A(1,2) show ?thesis by (intro exI [of _ preds] conjI)
qed

text \<open>
  Claim C3 as stated covers every batch and every constructed model. With no output class
  the row of an image is empty and sums to zero; with an empty batch and a block the
  attention concatenates an empty list of results and raises.
\<close>

theorem MyViT_forward_counterexample:
  "MyViT_forward gelu_sigmoid
     (example_vit [] \<lparr>in_features = 2, out_features = 0, weight = [], bias = []\<rparr>)
     \<lparr>shape4 = (1, 1, 2, 2), data4 = [[[[1, 2], [3, 4]]]]\<rparr> = Inr [[]] \<and>
   valid_MyViT 0 (example_vit [] \<lparr>in_features = 2, out_features = 0, weight = [], bias = []\<rparr>) \<and>
   sum_list ([] :: real list) \<noteq> 1 \<and>
   MyViT_forward gelu_sigmoid
     (example_vit [example_block]
        \<lparr>in_features = 2, out_features = 3, weight = [[1, 0], [0, 1], [1, 1]],
         bias = [0, 0, 0]\<rparr>)
     \<lparr>shape4 = (0, 1, 2, 2), data4 = []\<rparr> = Inl RuntimeError \<and>
   valid_MyViT 3
     (example_vit [example_block]
        \<lparr>in_features = 2, out_features = 3, weight = [[1, 0], [0, 1], [1, 1]],
         bias = [0, 0, 0]\<rparr>)"
proof -
  let ?none = "\<lparr>in_features = 2, out_features = 0, weight = [], bias = []\<rparr>"
  let ?head = "\<lparr>in_features = 2, out_features = 3, weight = [[1, 0], [0, 1], [1, 1::real]],
           bias = [0, 0, 0::real]\<rparr>"
  let ?x = "\<lparr>shape4 = (1, 1, 2, 2), data4 = [[[[1, 2], [3, 4::real]]]]\<rparr>"
  have vl0: "valid_linear 2 0 ?none" by (simp add: valid_linear_def)
  have nb: "\<forall>block\<in>set ([] :: MyViTBlock list). valid_MyViTBlock 2 2 block" by simp
  have v0: "valid_MyViT 0 (example_vit [] ?none)"
    using vl0 nb by (rule valid_example_vit)
  have c: "chw (example_vit [] ?none) = (1, 2, 2)" by (simp add: example_vit_def)
  have x: "valid4 ?x" "shape4 ?x = (1, 1, 2, 2)" by (simp_all add: valid4_def)
  from MyViT_forward_closed_form [OF v0 c x, of gelu_sigmoid] obtain out where
    out: "length out = 1"
      "MyViT_forward gelu_sigmoid (example_vit [] ?none) ?x =
         Inr (map (\<lambda>sequence. softmax (linear_token (mlp (example_vit [] ?none)) (sequence ! 0)))
                out)"
    by auto
  from out(1) obtain s where "out = [s]" by (cases out) auto
  with out(2) have a: "MyViT_forward gelu_sigmoid (example_vit [] ?none) ?x = Inr [[]]"
    by (simp add: example_vit_def linear_token_def softmax_def)
  have "valid_linear 2 3 ?head" by (simp add: valid_linear_def)
  then have v: "valid_MyViT 3 (example_vit [example_block] ?head)"
    by (rule valid_example_vit) (simp add: valid_example_block)
  have b: "MyViT_forward gelu_sigmoid (example_vit [example_block] ?head)
      \<lparr>shape4 = (0, 1, 2, 2), data4 = []\<rparr> = Inl RuntimeError"
    by (simp add: MyViT_forward_def MyViT_sequences_def patchify_def ebind_def map_patches_def
        add3_def example_vit_def MyViTBlock_forward_def layer_norm_forward_def MyMSA_forward_def)
  from a v0 b v show ?thesis by simp
qed

end
